theory Spec2Isabelle
  imports Main
begin

text \<open>
  A model of the lazy service loader of \<^verbatim>\<open>@bgotink/ng-lazy\<close>. The sources are
  \<^verbatim>\<open>src/src/utils.ts\<close> (the Deferred) and \<^verbatim>\<open>src/src/differential.ts\<close>, which holds
  \<^verbatim>\<open>differential.ts\<close> (lines 1 to 66) followed by \<^verbatim>\<open>lazy.ts\<close> (lines 67 to 643); line
  numbers below are those of that file.
\<close>

section \<open>Values, errors, promises\<close>

text \<open>
  The errors the library throws. \<open>ServiceNotReadyError\<close>, \<open>OperationNotSupportedError\<close>
  and \<open>UnexpectedDeterminantError\<close> are the three exported classes; \<open>Error\<close> is a plain
  \<^verbatim>\<open>new Error(message)\<close>; \<open>TypeError\<close> is what the JavaScript engine throws for an
  operation on a revoked proxy or for \<^verbatim>\<open>Reflect.get\<close> on a non-object (its payload
  names the operation; the message text is the engine's).
  Failures of user code (the construction closure, a creator, a teardown callback) are
  arbitrary values of this type.
\<close>

datatype error =
    ServiceNotReadyError string
  | OperationNotSupportedError string
  | UnexpectedDeterminantError string
  | TypeError string
  | Error string

datatype jsval = JUndefined | JNull | JBool bool | JNum int | JStr string | JFun string

text \<open>
  The real service object, as \<^verbatim>\<open>Reflect.get\<close>, \<^verbatim>\<open>Reflect.set\<close> and \<^verbatim>\<open>Reflect.has\<close>
  see it: the members it has, own or inherited, with the value a read gives; the names
  a write is refused for (an accessor with a getter only, a data member that is not
  writable, every member of a frozen object, a member inherited by an object that is
  not extensible); and whether a member can be added (\<open>extensible\<close> is false for an
  object that is frozen, sealed, or made non-extensible).
  A member that is an accessor with a setter, whose write runs user code, is not
  modelled.
\<close>

record object =
  members :: "string \<rightharpoonup> jsval"
  readonly :: "string set"
  extensible :: bool

datatype 'a promise = Pending | Fulfilled 'a | Rejected error

definition promise_resolve :: "'a \<Rightarrow> 'a promise \<Rightarrow> 'a promise" where
  "promise_resolve v p = (case p of Pending \<Rightarrow> Fulfilled v | _ \<Rightarrow> p)"

definition promise_reject :: "error \<Rightarrow> 'a promise \<Rightarrow> 'a promise" where
  "promise_reject e p = (case p of Pending \<Rightarrow> Rejected e | _ \<Rightarrow> p)"

text \<open>What \<^verbatim>\<open>await p\<close> in an \<^verbatim>\<open>async\<close> function returning \<^verbatim>\<open>Promise<void>\<close> makes of \<open>p\<close>:
  the function's own promise stays pending while \<open>p\<close> is, completes when \<open>p\<close> is
  fulfilled (the value is dropped) and rejects with \<open>p\<close>'s error.\<close>

definition await_void :: "'a promise \<Rightarrow> unit promise" where
  "await_void p = (case p of Pending \<Rightarrow> Pending | Fulfilled _ \<Rightarrow> Fulfilled () | Rejected e \<Rightarrow> Rejected e)"

section \<open>utils.ts: Deferred\<close>

text \<open>
  \<^verbatim>\<open>class Deferred<T> extends Promise<T>\<close> with the private fields \<^verbatim>\<open>#isResolved\<close> and
  \<^verbatim>\<open>#value\<close>; \<open>d_state\<close> is the state of the promise it extends.
\<close>

record 'a Deferred =
  isResolved :: bool
  d_value :: "'a option"
  d_state :: "'a promise"

definition new_Deferred :: "'a Deferred" where
  "new_Deferred = \<lparr>isResolved = False, d_value = None, d_state = Pending\<rparr>"

definition resolve :: "'a \<Rightarrow> 'a Deferred \<Rightarrow> 'a Deferred" where
  "resolve v d =
     d\<lparr>d_value := (if \<not> isResolved d then Some v else d_value d),
       isResolved := True,
       d_state := promise_resolve v (d_state d)\<rparr>"

definition reject :: "error \<Rightarrow> 'a Deferred \<Rightarrow> 'a Deferred" where
  "reject e d = d\<lparr>isResolved := True, d_state := promise_reject e (d_state d)\<rparr>"

section \<open>lazy.ts: the closure of one surrogate\<close>

datatype LazyCreationTrigger = OnInjection | OnAccess | Explicit

text \<open>
  What one run of the construction closure \<^verbatim>\<open>serviceFactory\<close> and of the creator it
  yields come to, as \<^verbatim>\<open>create()\<close> observes it after its \<^verbatim>\<open>await\<close>:
  \<^item> \<open>FactoryFails e\<close>: the closure threw \<open>e\<close>, or the promise it returned rejected with \<open>e\<close>;
  \<^item> \<open>NoMarker\<close>: the awaited value is nullish or has no \<^verbatim>\<open>lazilyCreatedMarker\<close> member;
  \<^item> \<open>CreatorThrows e\<close>: the marker is there and \<^verbatim>\<open>creator(injector)\<close> throws \<open>e\<close>;
  \<^item> \<open>Creates obj t\<close>: \<^verbatim>\<open>creator(injector)\<close> returns \<^verbatim>\<open>{service, destroy}\<close>, \<open>obj\<close> the
    members of the new service object and \<open>t\<close> the error \<^verbatim>\<open>destroy()\<close> throws, if any.
\<close>

datatype serviceFactory_result =
    FactoryFails error
  | NoMarker
  | CreatorThrows error
  | Creates object "error option"

text \<open>The construction result \<^verbatim>\<open>{service, destroy}\<close>: \<open>service\<close> is the address of the
  real service object in \<open>objects\<close> below.\<close>

record created =
  service :: nat
  destroy_throws :: "error option"

text \<open>The three function values \<^verbatim>\<open>getValue\<close> is assigned.\<close>

datatype getValue_fn = NotReadyFn | RethrowFn error | ServiceFn nat

text \<open>
  The function values \<^verbatim>\<open>getOrCreateValueAsync\<close> and \<^verbatim>\<open>getValueAsync\<close> are assigned:
  \<open>CreateFn\<close> is the initial \<^verbatim>\<open>getOrCreateValueAsync\<close> (it calls \<^verbatim>\<open>create()\<close>),
  \<open>MemoFn n\<close> is \<^verbatim>\<open>() => valuePromise\<close> for the \<open>n\<close>-th \<^verbatim>\<open>valuePromise\<close>, and \<open>ThenFn\<close> is
  \<^verbatim>\<open>() => moduleAndValuePromise.then(v => v.service)\<close>. The promise each returns:
\<close>

datatype async_fn = CreateFn | MemoFn nat | ThenFn

datatype awaited = ValuePromise nat | DeferredThen

text \<open>The five getters \<^verbatim>\<open>markSafeProperty\<close> and \<^verbatim>\<open>markSafeMethod\<close> store.\<close>

datatype safe_getter =
  PromiseProperty | ObservableProperty | PromiseMethod | VoidMethod | ObservableMethod

text \<open>
  The variables one call of \<^verbatim>\<open>LazyServiceLoader.#create\<close> closes over. The source's
  variables keep their names. \<open>revoked\<close> is the state of the revocable proxy;
  \<open>registered\<close> says whether \<^verbatim>\<open>this.#services\<close> holds the proxy as a key (the map's only
  entry this closure reads or writes); \<open>suspended\<close> holds the runs of \<^verbatim>\<open>create()\<close> that
  wait at their \<^verbatim>\<open>await\<close>, each with what it is going to receive; \<open>objects\<close> is the store
  of service objects the creators allocated. \<open>completed\<close> (the runs of \<^verbatim>\<open>create()\<close>
  that went on past their \<^verbatim>\<open>await\<close>, each with what it received) and the three
  counters record what happened and are read by no operation.
  The construction closure runs in an environment \<open>'env\<close> (the injection context and
  whatever else it reads) and may change it; what one run of it does is a
  \<open>factory_run\<close>, below. A creator and a teardown callback that use the surrogate are not
  modelled.
\<close>

text \<open>
  While it runs, the construction closure may use the surrogate it is constructing:
  under \<open>OnAccess\<close> and \<open>Explicit\<close> the proxy was returned, and registered, before the
  closure is first invoked. The two uses that reach the getter variables are
  \<^verbatim>\<open>loader.load(proxy)\<close> and reading a member, \<^verbatim>\<open>proxy[name]\<close>.
\<close>

datatype callback = LoadsService | ReadsMember string

text \<open>
  One run of the construction closure, from the environment it is invoked in:
  \<^item> \<open>Returns r env\<close>: the closure ends; \<open>r\<close> is what \<^verbatim>\<open>create()\<close> is going to receive at
    its \<^verbatim>\<open>await\<close> and \<open>env\<close> the environment the closure leaves;
  \<^item> \<open>CallsBack op env k\<close>: the closure, having made the environment \<open>env\<close>, makes the
    call \<open>op\<close> on its own surrogate and, when that call has returned with the environment
    \<open>env'\<close>, goes on as \<open>k env'\<close>. What the call hands back or throws is not passed on
    to \<open>k\<close>.
  \<open>plain f\<close> is a closure that never calls back.
\<close>

datatype 'env factory_run =
    Returns serviceFactory_result 'env
  | CallsBack callback 'env "'env \<Rightarrow> 'env factory_run"

definition plain :: "('env \<Rightarrow> serviceFactory_result \<times> 'env) \<Rightarrow> 'env \<Rightarrow> 'env factory_run" where
  "plain f env = (case f env of (r, env') \<Rightarrow> Returns r env')"

record 'env closure =
  trigger :: LazyCreationTrigger
  serviceFactory :: "'env \<Rightarrow> 'env factory_run"
  safeProperties :: "string \<rightharpoonup> safe_getter"
  moduleAndValuePromise :: "created Deferred"
  getValue :: getValue_fn
  getOrCreateValueAsync :: async_fn
  getValueAsync :: async_fn
  revoked :: bool
  registered :: bool
  suspended :: "serviceFactory_result list"
  completed :: "serviceFactory_result list"
  objects :: "nat \<rightharpoonup> object"
  factoryCalls :: nat
  creatorCalls :: nat
  teardownCalls :: nat

definition notReadyMessage :: "bool \<Rightarrow> string \<Rightarrow> string" where
  "notReadyMessage devMode prop =
     (if devMode
      then ''Lazy service is not ready yet'' @ [CHR 0x0A] @
           ''Did you forget to mark property '' @ prop @ '' as safe?''
      else ''Lazy service is not ready yet'')"

definition call_getValue :: "bool \<Rightarrow> 'env closure \<Rightarrow> string \<Rightarrow> error + nat" where
  "call_getValue devMode c prop =
     (case getValue c of
        NotReadyFn \<Rightarrow> Inl (ServiceNotReadyError (notReadyMessage devMode prop))
      | RethrowFn e \<Rightarrow> Inl e
      | ServiceFn a \<Rightarrow> Inr a)"

text \<open>
  The synchronous part of \<^verbatim>\<open>serviceFactory()\<close> inside \<^verbatim>\<open>create()\<close> (line 523): the run
  of the closure, each call back it makes acting on the closure's variables as they
  are at that moment. \<open>cb\<close> is what a call back does.
\<close>

primrec invoke_serviceFactory ::
  "(callback \<Rightarrow> 'env closure \<times> 'env \<Rightarrow> 'env closure \<times> 'env) \<Rightarrow> 'env factory_run \<Rightarrow> 'env closure
     \<Rightarrow> serviceFactory_result \<times> 'env closure \<times> 'env" where
  "invoke_serviceFactory cb (Returns r env) c = (r, c, env)"
| "invoke_serviceFactory cb (CallsBack op env k) c =
     (case cb op (c, env) of (c', env') \<Rightarrow> invoke_serviceFactory cb (k env') c')"

text \<open>
  Calling one of the asynchronous getters (lines 508 to 519 and 548 to 551). The initial
  one calls \<^verbatim>\<open>create()\<close>, which invokes the construction closure and runs up to its
  \<^verbatim>\<open>await\<close>; only when \<^verbatim>\<open>create()\<close> has returned is \<^verbatim>\<open>valuePromise\<close> made and are
  both variables reassigned (lines 517 and 518). A call back the closure makes before
  that finds the variables as they were. The \<^verbatim>\<open>valuePromise\<close> of the \<open>n\<close>-th invocation
  of the closure is numbered \<open>n\<close>.
\<close>

definition call_async_with ::
  "(callback \<Rightarrow> 'env closure \<times> 'env \<Rightarrow> 'env closure \<times> 'env) \<Rightarrow> async_fn \<Rightarrow> 'env closure \<times> 'env
     \<Rightarrow> awaited \<times> 'env closure \<times> 'env" where
  "call_async_with cb f ce =
     (case ce of (c, env) \<Rightarrow>
        (case f of
           CreateFn \<Rightarrow>
             (case invoke_serviceFactory cb (serviceFactory c env)
                     (c\<lparr>factoryCalls := Suc (factoryCalls c)\<rparr>) of
                (r, c', env') \<Rightarrow>
                  (ValuePromise (factoryCalls c),
                   c'\<lparr>suspended := suspended c' @ [r],
                      getOrCreateValueAsync := MemoFn (factoryCalls c),
                      getValueAsync := MemoFn (factoryCalls c)\<rparr>,
                   env'))
         | MemoFn n \<Rightarrow> (ValuePromise n, c, env)
         | ThenFn \<Rightarrow> (DeferredThen, c, env)))"

text \<open>The rejection handler of \<^verbatim>\<open>create().catch(...)\<close> (lines 509 to 515).\<close>

definition create_failed :: "error \<Rightarrow> 'env closure \<Rightarrow> 'env closure" where
  "create_failed e c =
     c\<lparr>moduleAndValuePromise := reject e (moduleAndValuePromise c),
       getValue := RethrowFn e\<rparr>"

definition configError :: "bool \<Rightarrow> error" where
  "configError devMode =
     (if devMode
      then Error (''The factory function passed into LazyServiceLoader didn'' @ [CHR 0x27] @
             ''t call createFromInjectable, createFromModule, or createFromEnvironment'')
      else Error (''Factory function didn'' @ [CHR 0x27] @ ''t create service''))"

text \<open>
  The rest of \<^verbatim>\<open>create()\<close> after its \<^verbatim>\<open>await\<close> (lines 524 to 544), for the oldest
  suspended run, together with the rejection handler when the run fails. A run that finds the Deferred settled
  returns the Deferred itself, so its own promise takes the Deferred's state.
\<close>

definition create_resume :: "bool \<Rightarrow> 'env closure \<Rightarrow> 'env closure" where
  "create_resume devMode c =
     (case suspended c of
        [] \<Rightarrow> c
      | r # rest \<Rightarrow>
          (let c1 = c\<lparr>suspended := rest, completed := completed c @ [r]\<rparr> in
           case r of
             FactoryFails e \<Rightarrow> create_failed e c1
           | NoMarker \<Rightarrow> create_failed (configError devMode) c1
           | CreatorThrows e \<Rightarrow>
               (if isResolved (moduleAndValuePromise c1)
                then (case d_state (moduleAndValuePromise c1) of
                        Rejected e' \<Rightarrow> create_failed e' c1
                      | _ \<Rightarrow> c1)
                else create_failed e (c1\<lparr>creatorCalls := Suc (creatorCalls c1)\<rparr>))
           | Creates obj t \<Rightarrow>
               (if isResolved (moduleAndValuePromise c1)
                then (case d_state (moduleAndValuePromise c1) of
                        Rejected e' \<Rightarrow> create_failed e' c1
                      | _ \<Rightarrow> c1)
                else
                  (let a = creatorCalls c1;
                       result = \<lparr>service = a, destroy_throws = t\<rparr>
                   in c1\<lparr>creatorCalls := Suc a,
                         objects := (objects c1)(a \<mapsto> obj),
                         moduleAndValuePromise := resolve result (moduleAndValuePromise c1),
                         getValue := ServiceFn a\<rparr>))))"

section \<open>lazy.ts: the proxy handlers\<close>

datatype get_result = DestroyFn | FakeConstructor | SafeWrapper safe_getter awaited | Member jsval

definition Reflect_get :: "'env closure \<Rightarrow> nat \<Rightarrow> string \<Rightarrow> error + jsval" where
  "Reflect_get c a prop =
     (case objects c a of
        None \<Rightarrow> Inl (TypeError ''Reflect.get'')
      | Some obj \<Rightarrow> Inr (case members obj prop of None \<Rightarrow> JUndefined | Some v \<Rightarrow> v))"

text \<open>\<^verbatim>\<open>Reflect.set\<close> answers false, and leaves the object as it is, when the member
  cannot be written or cannot be added; otherwise it stores the value and answers
  true.\<close>

definition Reflect_set ::
  "'env closure \<Rightarrow> nat \<Rightarrow> string \<Rightarrow> jsval \<Rightarrow> (error + bool) \<times> 'env closure" where
  "Reflect_set c a prop newValue =
     (case objects c a of
        None \<Rightarrow> (Inl (TypeError ''Reflect.set''), c)
      | Some obj \<Rightarrow>
          if prop \<in> readonly obj \<or> (members obj prop = None \<and> \<not> extensible obj)
          then (Inr False, c)
          else (Inr True,
                c\<lparr>objects := (objects c)(a \<mapsto> obj\<lparr>members := (members obj)(prop \<mapsto> newValue)\<rparr>)\<rparr>))"

definition Reflect_has :: "'env closure \<Rightarrow> nat \<Rightarrow> string \<Rightarrow> error + bool" where
  "Reflect_has c a prop =
     (case objects c a of
        None \<Rightarrow> Inl (TypeError ''Reflect.has'')
      | Some obj \<Rightarrow> Inr (members obj prop \<noteq> None))"

text \<open>The traps \<^verbatim>\<open>get\<close>, \<^verbatim>\<open>set\<close> and \<^verbatim>\<open>has\<close> (lines 554 to 588). Every trap of a
  revoked proxy throws a \<open>TypeError\<close> before the handler is looked at. The \<^verbatim>\<open>get\<close>
  trap may invoke the construction closure; \<open>cb\<close> is what a call back of that closure
  does.\<close>

definition proxy_get_with ::
  "(callback \<Rightarrow> 'env closure \<times> 'env \<Rightarrow> 'env closure \<times> 'env) \<Rightarrow> bool \<Rightarrow> string \<Rightarrow> 'env closure \<times> 'env
     \<Rightarrow> (error + get_result) \<times> 'env closure \<times> 'env" where
  "proxy_get_with cb devMode prop ce =
     (case ce of (c, env) \<Rightarrow>
        if revoked c then (Inl (TypeError ''get''), c, env)
        else if prop = ''ngOnDestroy'' then (Inr DestroyFn, c, env)
        else if prop = ''constructor'' then (Inr FakeConstructor, c, env)
        else
          (case safeProperties c prop of
             Some safeGetter \<Rightarrow>
               (case call_async_with cb (getValueAsync c) (c, env) of
                  (p, c', env') \<Rightarrow> (Inr (SafeWrapper safeGetter p), c', env'))
           | None \<Rightarrow>
               (case call_getValue devMode c prop of
                  Inl e \<Rightarrow> (Inl e, c, env)
                | Inr a \<Rightarrow> (map_sum id Member (Reflect_get c a prop), c, env))))"

text \<open>
  What a call back of the construction closure does to its own closure: \<^verbatim>\<open>load\<close> of
  the loader finds the registration, if there still is one, and calls
  \<^verbatim>\<open>getOrCreateValueAsync()\<close>; a read is the \<^verbatim>\<open>get\<close> trap. Either may invoke the
  closure again, which may call back in turn: \<open>depth\<close> is the number of nested
  invocations the engine's call stack still has room for, and beyond it a call does
  nothing (the engine throws a \<open>RangeError\<close> instead of calling). \<open>stack_limit\<close> is the room
  there is at an event; its value matters only to a closure that calls back without
  end.
\<close>

primrec call_back ::
  "nat \<Rightarrow> bool \<Rightarrow> callback \<Rightarrow> 'env closure \<times> 'env \<Rightarrow> 'env closure \<times> 'env" where
  "call_back 0 devMode op ce = ce"
| "call_back (Suc depth) devMode op ce =
     (case op of
        LoadsService \<Rightarrow>
          (if registered (fst ce)
           then snd (call_async_with (call_back depth devMode) (getOrCreateValueAsync (fst ce)) ce)
           else ce)
      | ReadsMember prop \<Rightarrow> snd (proxy_get_with (call_back depth devMode) devMode prop ce))"

definition stack_limit :: nat where
  "stack_limit = 10000"

definition call_async ::
  "bool \<Rightarrow> async_fn \<Rightarrow> 'env closure \<times> 'env \<Rightarrow> awaited \<times> 'env closure \<times> 'env" where
  "call_async devMode f ce = call_async_with (call_back stack_limit devMode) f ce"

definition proxy_get ::
  "bool \<Rightarrow> string \<Rightarrow> 'env closure \<times> 'env \<Rightarrow> (error + get_result) \<times> 'env closure \<times> 'env" where
  "proxy_get devMode prop ce = proxy_get_with (call_back stack_limit devMode) devMode prop ce"

definition proxy_set ::
  "bool \<Rightarrow> string \<Rightarrow> jsval \<Rightarrow> 'env closure \<Rightarrow> (error + bool) \<times> 'env closure" where
  "proxy_set devMode prop newValue c =
     (if revoked c then (Inl (TypeError ''set''), c)
      else if prop = ''ngOnDestroy''
        then (Inl (OperationNotSupportedError ''ngOnDestroy cannot be edited''), c)
      else if safeProperties c prop \<noteq> None
        then (Inl (OperationNotSupportedError
                ''Properties marked as safe properties cannot be edited''), c)
      else
        (case call_getValue devMode c prop of
           Inl e \<Rightarrow> (Inl e, c)
         | Inr a \<Rightarrow> Reflect_set c a prop newValue))"


definition proxy_has :: "bool \<Rightarrow> string \<Rightarrow> 'env closure \<Rightarrow> error + bool" where
  "proxy_has devMode prop c =
     (if revoked c then Inl (TypeError ''has'')
      else if prop = ''ngOnDestroy'' \<or> safeProperties c prop \<noteq> None then Inr True
      else
        (case call_getValue devMode c prop of
           Inl e \<Rightarrow> Inl e
         | Inr a \<Rightarrow> Reflect_has c a prop))"

text \<open>The eight traps bound to \<^verbatim>\<open>notSupported(...)\<close> (lines 590 to 600 and 103 to
  107).\<close>

datatype structural_op =
    GetOwnPropertyDescriptor | DefineProperty | DeleteProperty
  | GetPrototypeOf | SetPrototypeOf
  | IsExtensible | PreventExtensions
  | OwnKeys

fun trap_name :: "structural_op \<Rightarrow> string" where
  "trap_name GetOwnPropertyDescriptor = ''getOwnPropertyDescriptor''"
| "trap_name DefineProperty = ''defineProperty''"
| "trap_name DeleteProperty = ''deleteProperty''"
| "trap_name GetPrototypeOf = ''getPrototypeOf''"
| "trap_name SetPrototypeOf = ''setPrototypeOf''"
| "trap_name IsExtensible = ''isExtensible''"
| "trap_name PreventExtensions = ''preventExtensions''"
| "trap_name OwnKeys = ''ownKeys''"

definition notSupported :: "string \<Rightarrow> error" where
  "notSupported operation =
     OperationNotSupportedError (''Operation '' @ operation @ '' is not supported on lazy services'')"

definition proxy_structural :: "structural_op \<Rightarrow> 'env closure \<Rightarrow> error + jsval" where
  "proxy_structural operation c =
     (if revoked c then Inl (TypeError (trap_name operation))
      else Inl (notSupported (trap_name operation)))"

section \<open>lazy.ts: destroy and the registration\<close>

definition destroyedError :: error where
  "destroyedError = Error ''The service has been destroyed before it finished creating''"

text \<open>The \<^verbatim>\<open>destroy\<close> function of the closure (lines 606 to 622); the first
  component is the error it throws (only the teardown callback can throw).\<close>

definition destroy :: "'env closure \<Rightarrow> error option \<times> 'env closure" where
  "destroy c =
     (if \<not> registered c then (None, c)
      else
        (let c1 = c\<lparr>registered := False, revoked := True\<rparr> in
         if isResolved (moduleAndValuePromise c1)
         then (case d_value (moduleAndValuePromise c1) of
                 None \<Rightarrow> (None, c1)
               | Some result \<Rightarrow>
                   (destroy_throws result, c1\<lparr>teardownCalls := Suc (teardownCalls c1)\<rparr>))
         else (None, c1\<lparr>moduleAndValuePromise :=
                           reject destroyedError (moduleAndValuePromise c1)\<rparr>)))"

text \<open>The \<^verbatim>\<open>load\<close> method of the registration object \<^verbatim>\<open>#create\<close> stores.\<close>

definition registration_load ::
  "bool \<Rightarrow> 'env closure \<times> 'env \<Rightarrow> awaited \<times> 'env closure \<times> 'env" where
  "registration_load devMode ce = call_async devMode (getOrCreateValueAsync (fst ce)) ce"

text \<open>The body of \<^verbatim>\<open>#create\<close>: the closure as it is when the proxy is returned. Under
  \<open>OnInjection\<close> the construction closure is invoked before that (line 638): nobody holds
  the proxy yet, so a call back of the closure finds nothing to act on.\<close>

definition new_closure ::
  "LazyCreationTrigger \<Rightarrow> ('env \<Rightarrow> 'env factory_run) \<Rightarrow> (string \<rightharpoonup> safe_getter)
     \<Rightarrow> 'env closure" where
  "new_closure t f sp =
     \<lparr>trigger = t, serviceFactory = f, safeProperties = sp,
      moduleAndValuePromise = new_Deferred,
      getValue = NotReadyFn,
      getOrCreateValueAsync = CreateFn,
      getValueAsync = (if t \<noteq> Explicit then CreateFn else ThenFn),
      revoked = False, registered = True, suspended = [], completed = [],
      objects = Map.empty,
      factoryCalls = 0, creatorCalls = 0, teardownCalls = 0\<rparr>"

definition create_closure ::
  "LazyCreationTrigger \<Rightarrow> ('env \<Rightarrow> 'env factory_run) \<Rightarrow> (string \<rightharpoonup> safe_getter)
     \<Rightarrow> 'env \<Rightarrow> 'env closure \<times> 'env" where
  "create_closure t f sp env =
     (let c = new_closure t f sp in
      if t = OnInjection
      then (case call_async_with (\<lambda>op ce. ce) (getOrCreateValueAsync c) (c, env) of
              (_, c', env') \<Rightarrow> (c', env'))
      else (c, env))"

section \<open>lazy.ts: LazyServiceLoader\<close>

text \<open>
  The loader: the closures \<^verbatim>\<open>#create\<close> made, by proxy (proxies are numbered in the
  order they are made), the environment the construction closures run in, and Angular's
  \<^verbatim>\<open>isDevMode()\<close>. The map \<^verbatim>\<open>#services\<close> has the key \<open>p\<close> exactly when the closure of \<open>p\<close>
  is \<open>registered\<close>, and its value there is the registration object built from that
  closure.
\<close>

record 'env LazyServiceLoader =
  closures :: "nat \<rightharpoonup> 'env closure"
  environment :: "'env"
  isDevMode :: bool
  nextProxy :: nat

definition new_LazyServiceLoader :: "'env \<Rightarrow> bool \<Rightarrow> 'env LazyServiceLoader" where
  "new_LazyServiceLoader env devMode =
     \<lparr>closures = Map.empty, environment = env, isDevMode = devMode, nextProxy = 0\<rparr>"

text \<open>\<^verbatim>\<open>this.#services.get(service)\<close>; \<open>None\<close> stands for \<^verbatim>\<open>dummyRegistration\<close>.\<close>

definition getServiceRegistration :: "'env LazyServiceLoader \<Rightarrow> nat \<Rightarrow> 'env closure option" where
  "getServiceRegistration s x =
     (case closures s x of
        None \<Rightarrow> None
      | Some c \<Rightarrow> if registered c then Some c else None)"

definition put :: "nat \<Rightarrow> 'env closure \<times> 'env \<Rightarrow> 'env LazyServiceLoader \<Rightarrow> 'env LazyServiceLoader" where
  "put p ce s = s\<lparr>closures := (closures s)(p \<mapsto> fst ce), environment := snd ce\<rparr>"

text \<open>\<^verbatim>\<open>load(service)\<close>: the promise it awaits (\<open>None\<close> for the dummy's no-op) and the
  loader afterwards.\<close>

definition load :: "'env LazyServiceLoader \<Rightarrow> nat \<Rightarrow> awaited option \<times> 'env LazyServiceLoader" where
  "load s x =
     (case getServiceRegistration s x of
        None \<Rightarrow> (None, s)
      | Some c \<Rightarrow>
          (case registration_load (isDevMode s) (c, environment s) of
             (p, ce) \<Rightarrow> (Some p, put x ce s)))"

definition isReady :: "'env LazyServiceLoader \<Rightarrow> nat \<Rightarrow> bool" where
  "isReady s x =
     (case getServiceRegistration s x of
        None \<Rightarrow> True
      | Some c \<Rightarrow> isResolved (moduleAndValuePromise c))"

text \<open>
  \<^verbatim>\<open>whenReady(service)\<close> awaits the \<^verbatim>\<open>whenReady\<close> member of the registration: the
  already resolved promise of the dummy, or the Deferred of the closure of \<open>service\<close>.
  \<open>outcome s' w\<close> is the state, in a loader state \<open>s'\<close> at or after the call, of the
  promise \<^verbatim>\<open>whenReady\<close> returned.
\<close>

datatype waiter = ResolvedAlready | AwaitsDeferredOf nat

definition whenReady :: "'env LazyServiceLoader \<Rightarrow> nat \<Rightarrow> waiter" where
  "whenReady s x =
     (case getServiceRegistration s x of
        None \<Rightarrow> ResolvedAlready
      | Some c \<Rightarrow> AwaitsDeferredOf x)"

definition outcome :: "'env LazyServiceLoader \<Rightarrow> waiter \<Rightarrow> unit promise" where
  "outcome s' w =
     (case w of
        ResolvedAlready \<Rightarrow> Fulfilled ()
      | AwaitsDeferredOf p \<Rightarrow>
          (case closures s' p of
             None \<Rightarrow> Pending
           | Some c \<Rightarrow> await_void (d_state (moduleAndValuePromise c))))"

text \<open>\<^verbatim>\<open>#create\<close>: returns the new proxy.\<close>

definition create ::
  "LazyCreationTrigger \<Rightarrow> ('env \<Rightarrow> 'env factory_run) \<Rightarrow> (string \<rightharpoonup> safe_getter)
     \<Rightarrow> 'env LazyServiceLoader \<Rightarrow> nat \<times> 'env LazyServiceLoader" where
  "create t f sp s =
     (let p = nextProxy s in
      (p, (put p (create_closure t f sp (environment s)) s)\<lparr>nextProxy := Suc p\<rparr>))"

text \<open>Operations on the proxy \<open>p\<close> and on its closure, lifted to the loader. A proxy
  that was never made is not a value a caller can hold: nothing happens.\<close>

definition get :: "'env LazyServiceLoader \<Rightarrow> nat \<Rightarrow> string
     \<Rightarrow> (error + get_result) option \<times> 'env LazyServiceLoader" where
  "get s p prop =
     (case closures s p of
        None \<Rightarrow> (None, s)
      | Some c \<Rightarrow>
          (case proxy_get (isDevMode s) prop (c, environment s) of
             (r, ce) \<Rightarrow> (Some r, put p ce s)))"

definition set_member :: "'env LazyServiceLoader \<Rightarrow> nat \<Rightarrow> string \<Rightarrow> jsval
     \<Rightarrow> (error + bool) option \<times> 'env LazyServiceLoader" where
  "set_member s p prop newValue =
     (case closures s p of
        None \<Rightarrow> (None, s)
      | Some c \<Rightarrow>
          (case proxy_set (isDevMode s) prop newValue c of
             (r, c') \<Rightarrow> (Some r, put p (c', environment s) s)))"

definition has :: "'env LazyServiceLoader \<Rightarrow> nat \<Rightarrow> string \<Rightarrow> (error + bool) option" where
  "has s p prop = map_option (proxy_has (isDevMode s) prop) (closures s p)"

definition structural :: "'env LazyServiceLoader \<Rightarrow> nat \<Rightarrow> structural_op \<Rightarrow> (error + jsval) option" where
  "structural s p operation = map_option (proxy_structural operation) (closures s p)"

definition destroy_proxy :: "'env LazyServiceLoader \<Rightarrow> nat
     \<Rightarrow> error option \<times> 'env LazyServiceLoader" where
  "destroy_proxy s p =
     (case closures s p of
        None \<Rightarrow> (None, s)
      | Some c \<Rightarrow>
          (case destroy c of (r, c') \<Rightarrow> (r, put p (c', environment s) s)))"

definition resume :: "'env LazyServiceLoader \<Rightarrow> nat \<Rightarrow> 'env LazyServiceLoader" where
  "resume s p =
     (case closures s p of
        None \<Rightarrow> s
      | Some c \<Rightarrow> put p (create_resume (isDevMode s) c, environment s) s)"

text \<open>\<^verbatim>\<open>ngOnDestroy()\<close> of the loader: the registrations in insertion order; a teardown
  callback that throws ends the loop.\<close>

fun destroy_each :: "nat list \<Rightarrow> 'env LazyServiceLoader \<Rightarrow> error option \<times> 'env LazyServiceLoader" where
  "destroy_each [] s = (None, s)"
| "destroy_each (p # ps) s =
     (case destroy_proxy s p of
        (Some e, s') \<Rightarrow> (Some e, s')
      | (None, s') \<Rightarrow> destroy_each ps s')"

definition ngOnDestroy :: "'env LazyServiceLoader \<Rightarrow> error option \<times> 'env LazyServiceLoader" where
  "ngOnDestroy s =
     destroy_each (filter (\<lambda>p. getServiceRegistration s p \<noteq> None) [0..<nextProxy s]) s"

section \<open>Runs of the loader\<close>

text \<open>
  What can happen to a loader, one event at a time: a factory built by \<^verbatim>\<open>lazyFactory\<close>
  is invoked (\<open>Create\<close>), a caller uses the loader or a proxy, a \<^verbatim>\<open>destroy\<close> function is
  called (by the \<^verbatim>\<open>DestroyRef\<close> it was handed to, or as the \<^verbatim>\<open>ngOnDestroy\<close> member read
  off the proxy), the value a suspended \<^verbatim>\<open>create()\<close> awaits arrives (\<open>Resume\<close>), or the
  loader itself is destroyed. The construction closure of a \<open>Create\<close> event is one that
  does not call back; a closure that does is handed to \<open>create\<close> itself.
\<close>

datatype 'env event =
    Create LazyCreationTrigger "'env \<Rightarrow> serviceFactory_result \<times> 'env" "string \<rightharpoonup> safe_getter"
  | Load nat
  | Get nat string
  | Set nat string jsval
  | Has nat string
  | Structural nat structural_op
  | Destroy nat
  | Resume nat
  | NgOnDestroy

fun step :: "'env LazyServiceLoader \<Rightarrow> 'env event \<Rightarrow> 'env LazyServiceLoader" where
  "step s (Create t f sp) = snd (create t (plain f) sp s)"
| "step s (Load x) = snd (load s x)"
| "step s (Get p prop) = snd (get s p prop)"
| "step s (Set p prop v) = snd (set_member s p prop v)"
| "step s (Has p prop) = s"
| "step s (Structural p operation) = s"
| "step s (Destroy p) = snd (destroy_proxy s p)"
| "step s (Resume p) = resume s p"
| "step s NgOnDestroy = snd (ngOnDestroy s)"

definition run :: "'env LazyServiceLoader \<Rightarrow> 'env event list \<Rightarrow> 'env LazyServiceLoader" where
  "run s evs = foldl step s evs"

section \<open>lazy.ts: lazyFactory\<close>

text \<open>
  The builder \<^verbatim>\<open>lazyFactory(serviceFactory)\<close> returns: its variables \<^verbatim>\<open>trigger\<close> and
  \<^verbatim>\<open>safeProperties\<close> and the construction closure. The \<^verbatim>\<open>type\<close> argument of the two
  marking methods is the string the caller passes.
\<close>

record 'env LazyFactory =
  lf_trigger :: LazyCreationTrigger
  lf_safeProperties :: "string \<rightharpoonup> safe_getter"
  lf_serviceFactory :: "'env \<Rightarrow> 'env factory_run"

definition lazyFactory :: "('env \<Rightarrow> 'env factory_run) \<Rightarrow> 'env LazyFactory" where
  "lazyFactory f =
     \<lparr>lf_trigger = OnInjection, lf_safeProperties = Map.empty, lf_serviceFactory = f\<rparr>"

definition createOn :: "LazyCreationTrigger \<Rightarrow> 'env LazyFactory \<Rightarrow> 'env LazyFactory" where
  "createOn t b = b\<lparr>lf_trigger := t\<rparr>"

definition markSafeProperty ::
  "string \<Rightarrow> string \<Rightarrow> 'env LazyFactory \<Rightarrow> error + 'env LazyFactory" where
  "markSafeProperty propertyName type b =
     (if type = ''promise''
        then Inr (b\<lparr>lf_safeProperties := (lf_safeProperties b)(propertyName \<mapsto> PromiseProperty)\<rparr>)
      else if type = ''observable''
        then Inr (b\<lparr>lf_safeProperties := (lf_safeProperties b)(propertyName \<mapsto> ObservableProperty)\<rparr>)
      else Inl (TypeError (''Unsupported safe property type: '' @ type)))"

definition markSafeMethod ::
  "string \<Rightarrow> string \<Rightarrow> 'env LazyFactory \<Rightarrow> error + 'env LazyFactory" where
  "markSafeMethod methodName type b =
     (if type = ''promise''
        then Inr (b\<lparr>lf_safeProperties := (lf_safeProperties b)(methodName \<mapsto> PromiseMethod)\<rparr>)
      else if type = ''void''
        then Inr (b\<lparr>lf_safeProperties := (lf_safeProperties b)(methodName \<mapsto> VoidMethod)\<rparr>)
      else if type = ''observable''
        then Inr (b\<lparr>lf_safeProperties := (lf_safeProperties b)(methodName \<mapsto> ObservableMethod)\<rparr>)
      else Inl (TypeError (''Unsupported safe method type: '' @ type)))"

text \<open>Invoking the builder: \<^verbatim>\<open>inject(LazyServiceLoader).#create(trigger, serviceFactory,
  new Map(safeProperties))\<close>.\<close>

definition invoke :: "'env LazyFactory \<Rightarrow> 'env LazyServiceLoader \<Rightarrow> nat \<times> 'env LazyServiceLoader" where
  "invoke b s = create (lf_trigger b) (lf_serviceFactory b) (lf_safeProperties b) s"

section \<open>differential.ts\<close>

text \<open>
  \<^verbatim>\<open>differentialLazyFactory(determine, fallbackServiceFactory)\<close>: the function
  \<^verbatim>\<open>determine\<close> runs in the environment, and may throw; \<^verbatim>\<open>serviceFactories\<close> is the map
  \<^verbatim>\<open>setImplementation\<close> fills, as it is when the construction closure runs. \<open>String\<close>
  stands for JavaScript's \<^verbatim>\<open>String(...)\<close> on determinants. The closures registered, the
  fallback and \<^verbatim>\<open>determine\<close> are taken not to call back.
\<close>

record ('d, 'env) DifferentialLazyFactory =
  determine :: "'env \<Rightarrow> (error + 'd) \<times> 'env"
  fallbackServiceFactory :: "('env \<Rightarrow> serviceFactory_result \<times> 'env) option"
  serviceFactories :: "'d \<rightharpoonup> ('env \<Rightarrow> serviceFactory_result \<times> 'env)"
  df_trigger :: LazyCreationTrigger
  df_safeProperties :: "string \<rightharpoonup> safe_getter"

definition differentialLazyFactory ::
  "('env \<Rightarrow> (error + 'd) \<times> 'env) \<Rightarrow> ('env \<Rightarrow> serviceFactory_result \<times> 'env) option
     \<Rightarrow> ('d, 'env) DifferentialLazyFactory" where
  "differentialLazyFactory det fallback =
     \<lparr>determine = det, fallbackServiceFactory = fallback, serviceFactories = Map.empty,
      df_trigger = OnInjection, df_safeProperties = Map.empty\<rparr>"

definition setImplementation ::
  "'d \<Rightarrow> ('env \<Rightarrow> serviceFactory_result \<times> 'env) \<Rightarrow> ('d, 'env) DifferentialLazyFactory
     \<Rightarrow> ('d, 'env) DifferentialLazyFactory" where
  "setImplementation determinant fn df =
     df\<lparr>serviceFactories := (serviceFactories df)(determinant \<mapsto> fn)\<rparr>"

definition unexpectedDeterminant :: "('d \<Rightarrow> string) \<Rightarrow> 'd \<Rightarrow> error" where
  "unexpectedDeterminant String determinant =
     UnexpectedDeterminantError
       (''Got determinant '' @ [CHR 0x22] @ String determinant @ [CHR 0x22] @
        '' which has not been registered'')"

text \<open>The construction closure \<^verbatim>\<open>differentialLazyFactory\<close> hands to \<^verbatim>\<open>lazyFactory\<close>.\<close>

definition differential_serviceFactory ::
  "('d \<Rightarrow> string) \<Rightarrow> ('d, 'env) DifferentialLazyFactory \<Rightarrow> 'env \<Rightarrow> serviceFactory_result \<times> 'env" where
  "differential_serviceFactory String df env =
     (case determine df env of
        (Inl e, env') \<Rightarrow> (FactoryFails e, env')
      | (Inr determinant, env') \<Rightarrow>
          (case serviceFactories df determinant of
             Some fn \<Rightarrow> fn env'
           | None \<Rightarrow>
               (case fallbackServiceFactory df of
                  Some fallback \<Rightarrow> fallback env'
                | None \<Rightarrow> (FactoryFails (unexpectedDeterminant String determinant), env'))))"

definition invoke_differential ::
  "('d \<Rightarrow> string) \<Rightarrow> ('d, 'env) DifferentialLazyFactory \<Rightarrow> 'env LazyServiceLoader
     \<Rightarrow> nat \<times> 'env LazyServiceLoader" where
  "invoke_differential String df s =
     create (df_trigger df) (plain (differential_serviceFactory String df)) (df_safeProperties df) s"

text \<open>A function on the environment with its calls counted in a counter put in front
  of the environment, and one that leaves the counter alone.\<close>

definition counted :: "('env \<Rightarrow> 'a \<times> 'env) \<Rightarrow> nat \<times> 'env \<Rightarrow> 'a \<times> nat \<times> 'env" where
  "counted f = (\<lambda>(n, env). case f env of (r, env') \<Rightarrow> (r, Suc n, env'))"

definition uncounted :: "('env \<Rightarrow> 'a \<times> 'env) \<Rightarrow> nat \<times> 'env \<Rightarrow> 'a \<times> nat \<times> 'env" where
  "uncounted f = (\<lambda>(n, env). case f env of (r, env') \<Rightarrow> (r, n, env'))"

section \<open>What every reachable closure satisfies\<close>

text \<open>What the run of \<^verbatim>\<open>create()\<close> that receives \<open>r\<close> settles a pending Deferred to.\<close>

fun settles_to :: "bool \<Rightarrow> serviceFactory_result \<Rightarrow> created promise" where
  "settles_to devMode (FactoryFails e) = Rejected e"
| "settles_to devMode NoMarker = Rejected (configError devMode)"
| "settles_to devMode (CreatorThrows e) = Rejected e"
| "settles_to devMode (Creates obj t) = Fulfilled \<lparr>service = 0, destroy_throws = t\<rparr>"

text \<open>The memoisation, for a construction closure that does not call back: it has run
  at most once, and the two getter variables say whether it has.\<close>

definition memo_ok :: "'env closure \<Rightarrow> bool" where
  "memo_ok c \<longleftrightarrow>
     (\<exists>f. serviceFactory c = plain f) \<and>
     factoryCalls c \<le> 1 \<and>
     length (completed c) + length (suspended c) = factoryCalls c \<and>
     getOrCreateValueAsync c = (if factoryCalls c = 0 then CreateFn else MemoFn 0) \<and>
     getValueAsync c =
       (if factoryCalls c = 0 then (if trigger c = Explicit then ThenFn else CreateFn)
        else MemoFn 0) \<and>
     (trigger c = OnInjection \<longrightarrow> factoryCalls c = 1)"

text \<open>The flag and the stored value of a Deferred agree with its promise.\<close>

definition deferred_ok :: "'a Deferred \<Rightarrow> bool" where
  "deferred_ok d \<longleftrightarrow>
     (isResolved d \<longleftrightarrow> d_state d \<noteq> Pending) \<and>
     d_value d = (case d_state d of Fulfilled r \<Rightarrow> Some r | _ \<Rightarrow> None)"

text \<open>How far construction has come, and what \<^verbatim>\<open>getValue\<close> and the Deferred say of it.\<close>

definition progress_ok :: "bool \<Rightarrow> 'env closure \<Rightarrow> bool" where
  "progress_ok devMode c \<longleftrightarrow>
     (registered c \<longleftrightarrow> \<not> revoked c) \<and>
     (completed c = [] \<longrightarrow>
        creatorCalls c = 0 \<and> getValue c = NotReadyFn \<and>
        d_value (moduleAndValuePromise c) = None) \<and>
     (registered c \<longrightarrow>
        d_state (moduleAndValuePromise c) =
          (case completed c of [] \<Rightarrow> Pending | r # _ \<Rightarrow> settles_to devMode r)) \<and>
     (\<not> registered c \<longrightarrow> isResolved (moduleAndValuePromise c)) \<and>
     (registered c \<longrightarrow>
        getValue c =
          (case d_state (moduleAndValuePromise c) of
             Pending \<Rightarrow> NotReadyFn
           | Rejected e \<Rightarrow> RethrowFn e
           | Fulfilled r \<Rightarrow> ServiceFn (service r))) \<and>
     (\<forall>r. d_state (moduleAndValuePromise c) = Fulfilled r \<longrightarrow>
        getValue c = ServiceFn (service r) \<and> objects c (service r) \<noteq> None \<and>
        creatorCalls c = 1) \<and>
     creatorCalls c \<le> 1 \<and>
     teardownCalls c =
       (if \<not> registered c \<and> d_value (moduleAndValuePromise c) \<noteq> None then 1 else 0)"

definition closure_inv :: "bool \<Rightarrow> 'env closure \<Rightarrow> bool" where
  "closure_inv devMode c \<longleftrightarrow>
     memo_ok c \<and> deferred_ok (moduleAndValuePromise c) \<and> progress_ok devMode c"

definition loader_inv :: "'env LazyServiceLoader \<Rightarrow> bool" where
  "loader_inv s \<longleftrightarrow>
     (\<forall>p c. closures s p = Some c \<longrightarrow> closure_inv (isDevMode s) c) \<and>
     (\<forall>p. closures s p \<noteq> None \<longrightarrow> p < nextProxy s)"

text \<open>The closures a closure can turn into in one operation: by \<^verbatim>\<open>load\<close> of the
  loader, and by anything else.\<close>

definition load_moves :: "bool \<Rightarrow> 'env closure \<Rightarrow> 'env closure set" where
  "load_moves devMode c =
     {c'. \<exists>env. registered c \<and> c' = fst (snd (registration_load devMode (c, env)))}"

definition other_moves :: "bool \<Rightarrow> 'env closure \<Rightarrow> 'env closure set" where
  "other_moves devMode c =
     {c'. c' = c \<or> (\<exists>name env. c' = fst (snd (proxy_get devMode name (c, env)))) \<or>
          (\<exists>name v. c' = snd (proxy_set devMode name v c)) \<or>
          c' = snd (destroy c) \<or> c' = create_resume devMode c}"

text \<open>Two loader states with the same proxies made.\<close>

definition same_frame :: "'env LazyServiceLoader \<Rightarrow> 'env LazyServiceLoader \<Rightarrow> bool" where
  "same_frame s s' \<longleftrightarrow>
     isDevMode s' = isDevMode s \<and> nextProxy s' = nextProxy s \<and>
     dom (closures s') = dom (closures s)"

text \<open>A closure whose \<^verbatim>\<open>destroy\<close> has run; and one whose \<^verbatim>\<open>destroy\<close> ran before
  construction settled, with no construction result and no teardown since.\<close>

definition destroyed :: "'env closure \<Rightarrow> bool" where
  "destroyed c \<longleftrightarrow> \<not> registered c \<and> revoked c"

definition destroyed_early :: "'env closure \<Rightarrow> bool" where
  "destroyed_early c \<longleftrightarrow>
     destroyed c \<and> isResolved (moduleAndValuePromise c) \<and>
     d_state (moduleAndValuePromise c) = Rejected destroyedError \<and>
     d_value (moduleAndValuePromise c) = None \<and>
     creatorCalls c = 0 \<and> teardownCalls c = 0"

text \<open>A closure made with the \<open>Explicit\<close> trigger on which \<^verbatim>\<open>load\<close> was never called.\<close>

definition explicit_idle :: "(string \<rightharpoonup> safe_getter) \<Rightarrow> 'env closure \<Rightarrow> bool" where
  "explicit_idle sp c \<longleftrightarrow>
     trigger c = Explicit \<and> safeProperties c = sp \<and>
     factoryCalls c = 0 \<and> suspended c = [] \<and> completed c = [] \<and>
     getOrCreateValueAsync c = CreateFn \<and> getValueAsync c = ThenFn \<and>
     getValue c = NotReadyFn \<and>
     (registered c \<longrightarrow>
        \<not> revoked c \<and> \<not> isResolved (moduleAndValuePromise c) \<and>
        d_state (moduleAndValuePromise c) = Pending)"

section \<open>Example loaders\<close>

text \<open>Construction closures that do not call back: one that leaves the environment
  alone, and one that counts its invocations in it.\<close>

definition yields :: "serviceFactory_result \<Rightarrow> 'env \<Rightarrow> serviceFactory_result \<times> 'env" where
  "yields r env = (r, env)"

definition counting :: "serviceFactory_result \<Rightarrow> nat \<Rightarrow> serviceFactory_result \<times> nat" where
  "counting r n = (r, Suc n)"

text \<open>The lazy service of the demo application: its safe members, and the unsafe
  property of its implementation.\<close>

definition demo_safe :: "string \<rightharpoonup> safe_getter" where
  "demo_safe =
     [''safePromise'' \<mapsto> PromiseProperty, ''safeVoidMethod'' \<mapsto> VoidMethod]"

definition demo_impl :: serviceFactory_result where
  "demo_impl =
     Creates \<lparr>members = [''unsafeProperty'' \<mapsto> JNum 42], readonly = {}, extensible = True\<rparr> None"


definition explicit_loader :: "unit LazyServiceLoader" where
  "explicit_loader =
     run (new_LazyServiceLoader () True) [Create Explicit (yields demo_impl) demo_safe]"

definition loading_loader :: "unit LazyServiceLoader" where
  "loading_loader =
     run (new_LazyServiceLoader () True) [Create OnInjection (yields demo_impl) demo_safe]"

definition ready_loader :: "unit LazyServiceLoader" where
  "ready_loader =
     run (new_LazyServiceLoader () True)
       [Create OnAccess (yields demo_impl) demo_safe, Get 0 ''safePromise'', Resume 0]"

definition failed_loader :: "unit LazyServiceLoader" where
  "failed_loader =
     run (new_LazyServiceLoader () True)
       [Create Explicit (yields (FactoryFails (Error ''boom''))) demo_safe, Load 0, Resume 0]"

definition cancelled_loader :: "unit LazyServiceLoader" where
  "cancelled_loader = run (snd (destroy_proxy loading_loader 0)) [Resume 0, Destroy 0]"

definition destroyed_loader :: "unit LazyServiceLoader" where
  "destroyed_loader = run (snd (destroy_proxy ready_loader 0)) [Load 0, Resume 0]"

definition unloaded_loader :: "unit LazyServiceLoader" where
  "unloaded_loader =
     run explicit_loader
       [Get 0 ''safePromise'', Resume 0, Get 0 ''unsafeProperty'', Set 0 ''unsafeProperty'' (JNum 1)]"


definition counted_loader :: "nat LazyServiceLoader" where
  "counted_loader =
     run (new_LazyServiceLoader 0 True)
       [Create OnAccess (counting demo_impl) demo_safe, Get 0 ''safePromise'', Load 0,
        Get 0 ''safeVoidMethod'', Resume 0, Load 0]"

text \<open>
  A construction closure that counts its invocations in the environment and, the
  first time it is invoked, makes the call \<open>op\<close> on its own surrogate before it
  returns; in the source's terms
  \<^verbatim>\<open>() => { if (++runs === 1) loader.load(proxy); return import(...) }\<close>. The loader
  after a surrogate is made on access with it.
\<close>

definition calls_back_once :: "callback \<Rightarrow> nat \<Rightarrow> nat factory_run" where
  "calls_back_once op n =
     (if n = 0 then CallsBack op 1 (\<lambda>n'. Returns demo_impl n') else Returns demo_impl (Suc n))"

definition reentrant_loader :: "callback \<Rightarrow> nat LazyServiceLoader" where
  "reentrant_loader op =
     snd (create OnAccess (calls_back_once op) demo_safe (new_LazyServiceLoader 0 True))"

definition determine_C :: "nat \<Rightarrow> (error + string) \<times> nat" where
  "determine_C n = (Inr ''C'', Suc n)"

definition demo_differential :: "(string, nat) DifferentialLazyFactory" where
  "demo_differential =
     setImplementation ''B'' (yields demo_impl)
       (setImplementation ''A'' (yields demo_impl) (differentialLazyFactory determine_C None))"

definition differential_loader :: "nat LazyServiceLoader" where
  "differential_loader =
     resume (snd (load (snd (invoke_differential (\<lambda>d. d) demo_differential
        (new_LazyServiceLoader 0 True))) 0)) 0"

section \<open>The closure invariant is kept\<close>

lemma deferred_ok_new: "deferred_ok new_Deferred"
  by (simp add: deferred_ok_def new_Deferred_def)

lemma deferred_ok_reject: "deferred_ok d \<Longrightarrow> deferred_ok (reject e d)"
  by (cases "d_state d") (simp_all add: deferred_ok_def reject_def promise_reject_def)

lemma deferred_ok_resolve: "deferred_ok d \<Longrightarrow> deferred_ok (resolve v d)"
  by (cases "d_state d") (simp_all add: deferred_ok_def resolve_def promise_resolve_def)

lemma plain_memo: "\<exists>g. serviceFactory (new_closure t (plain f) sp) = plain g"
  by (auto simp: new_closure_def)

lemma inv_new: "t \<noteq> OnInjection \<Longrightarrow> closure_inv devMode (new_closure t (plain f) sp)"
  using plain_memo[of t f sp]
  by (simp add: closure_inv_def memo_ok_def deferred_ok_def progress_ok_def new_closure_def
      new_Deferred_def)

text \<open>A closure that does not call back is invoked by the initial getter as a function
  of the environment; what a call back would do plays no part.\<close>

lemma invoke_plain:
  "invoke_serviceFactory cb (plain f env) c = (fst (f env), c, snd (f env))"
  by (simp add: plain_def split: prod.splits)

lemma call_async_with_plain:
  assumes "serviceFactory c = plain f"
  shows "call_async_with cb g (c, env) =
     (case g of
        CreateFn \<Rightarrow>
          (ValuePromise (factoryCalls c),
           c\<lparr>suspended := suspended c @ [fst (f env)],
             factoryCalls := Suc (factoryCalls c),
             getOrCreateValueAsync := MemoFn (factoryCalls c),
             getValueAsync := MemoFn (factoryCalls c)\<rparr>,
           snd (f env))
      | MemoFn n \<Rightarrow> (ValuePromise n, c, env)
      | ThenFn \<Rightarrow> (DeferredThen, c, env))"
  using assms
  by (simp add: call_async_with_def invoke_plain split: async_fn.splits)

lemma proxy_get_unfold:
  "proxy_get devMode prop ce =
     (case ce of (c, env) \<Rightarrow>
        if revoked c then (Inl (TypeError ''get''), c, env)
        else if prop = ''ngOnDestroy'' then (Inr DestroyFn, c, env)
        else if prop = ''constructor'' then (Inr FakeConstructor, c, env)
        else
          (case safeProperties c prop of
             Some safeGetter \<Rightarrow>
               (case call_async devMode (getValueAsync c) (c, env) of
                  (p, c', env') \<Rightarrow> (Inr (SafeWrapper safeGetter p), c', env'))
           | None \<Rightarrow>
               (case call_getValue devMode c prop of
                  Inl e \<Rightarrow> (Inl e, c, env)
                | Inr a \<Rightarrow> (map_sum id Member (Reflect_get c a prop), c, env))))"
  unfolding proxy_get_def proxy_get_with_def call_async_def by (rule refl)

lemma call_back_limit:
  "call_back stack_limit devMode op ce =
     (case op of
        LoadsService \<Rightarrow>
          (if registered (fst ce)
           then snd (call_async_with (call_back 9999 devMode) (getOrCreateValueAsync (fst ce)) ce)
           else ce)
      | ReadsMember prop \<Rightarrow> snd (proxy_get_with (call_back 9999 devMode) devMode prop ce))"
proof -
  have e: "stack_limit = Suc 9999" by (simp add: stack_limit_def)
  show ?thesis unfolding e by (rule call_back.simps(2))
qed

lemma call_async_cases:
  assumes "memo_ok c" "f = getOrCreateValueAsync c \<or> f = getValueAsync c"
  shows "(factoryCalls c = 0 \<and> f \<noteq> ThenFn \<and>
          (\<exists>r env'. call_async dm f (c, env) =
            (ValuePromise 0,
             c\<lparr>suspended := suspended c @ [r],
               factoryCalls := 1,
               getOrCreateValueAsync := MemoFn 0,
               getValueAsync := MemoFn 0\<rparr>,
             env')))
       \<or> (factoryCalls c = 1 \<and> call_async dm f (c, env) = (ValuePromise 0, c, env))
       \<or> (factoryCalls c = 0 \<and> trigger c = Explicit \<and> f = ThenFn \<and>
           call_async dm f (c, env) = (DeferredThen, c, env))"
proof -
  from assms(1) obtain g where g: "serviceFactory c = plain g"
    by (auto simp: memo_ok_def)
  have m: "factoryCalls c \<le> 1"
    "getOrCreateValueAsync c = (if factoryCalls c = 0 then CreateFn else MemoFn 0)"
    "getValueAsync c =
       (if factoryCalls c = 0 then (if trigger c = Explicit then ThenFn else CreateFn)
        else MemoFn 0)"
    using assms(1) by (simp_all add: memo_ok_def)
  show ?thesis
  proof (cases "factoryCalls c = 0")
    case True
    with m assms(2) call_async_with_plain[OF g, of "call_back stack_limit dm" f env]
    show ?thesis by (auto simp: call_async_def split: if_splits)
  next
    case False
    with m have "factoryCalls c = 1" by arith
    with m assms(2) call_async_with_plain[OF g, of "call_back stack_limit dm" f env]
    show ?thesis by (auto simp: call_async_def)
  qed
qed

lemma inv_started:
  assumes "closure_inv devMode c" "factoryCalls c = 0" "registered c"
  shows "closure_inv devMode
            (c\<lparr>suspended := suspended c @ [r], factoryCalls := 1,
               getOrCreateValueAsync := MemoFn 0, getValueAsync := MemoFn 0\<rparr>)"
  using assms
  by (simp add: closure_inv_def memo_ok_def progress_ok_def)

lemma inv_call_async:
  assumes "closure_inv devMode c" "registered c" "f = getOrCreateValueAsync c \<or> f = getValueAsync c"
  shows "closure_inv devMode (fst (snd (call_async dm f (c, env))))"
proof -
  from assms have m: "memo_ok c" by (simp add: closure_inv_def)
  from call_async_cases[OF m assms(3), of dm env] show ?thesis
    using assms(1,2) inv_started[of devMode c] by auto
qed

lemma inv_create_closure: "closure_inv devMode (fst (create_closure t (plain f) sp env))"
proof (cases "t = OnInjection")
  case True
  have e: "\<exists>g. plain f = plain g" by blast
  from True e show ?thesis
    by (simp add: create_closure_def call_async_with_def invoke_plain Let_def new_closure_def
        new_Deferred_def closure_inv_def memo_ok_def deferred_ok_def progress_ok_def)
next
  case False
  then show ?thesis by (simp add: create_closure_def inv_new)
qed

lemma inv_registration_load:
  "closure_inv devMode c \<Longrightarrow> registered c \<Longrightarrow>
   closure_inv devMode (fst (snd (registration_load dm (c, env))))"
  using inv_call_async[of devMode c "getOrCreateValueAsync c" dm env]
  by (simp add: registration_load_def)

lemma proxy_get_cases:
  "fst (snd (proxy_get devMode prop (c, env))) = c \<or>
   (\<not> revoked c \<and> fst (snd (proxy_get devMode prop (c, env))) =
      fst (snd (call_async devMode (getValueAsync c) (c, env))))"
  by (auto simp: proxy_get_unfold split: option.splits sum.splits prod.splits)

lemma inv_proxy_get:
  assumes "closure_inv devMode c"
  shows "closure_inv devMode (fst (snd (proxy_get devMode prop (c, env))))"
proof -
  have "\<not> revoked c \<Longrightarrow> registered c" using assms by (simp add: closure_inv_def progress_ok_def)
  then show ?thesis
    using proxy_get_cases[of devMode "prop" c env]
      inv_call_async[OF assms, of "getValueAsync c" devMode env] assms
    by auto
qed

lemma proxy_set_cases:
  "snd (proxy_set devMode prop v c) = c \<or>
   (\<exists>a obj. objects c a = Some obj \<and>
       snd (proxy_set devMode prop v c) =
         c\<lparr>objects := (objects c)(a \<mapsto> obj\<lparr>members := (members obj)(prop \<mapsto> v)\<rparr>)\<rparr>)"
  by (auto simp: proxy_set_def Reflect_set_def split: option.splits sum.splits)

lemma inv_objects_update:
  assumes "closure_inv devMode c" "objects c a = Some obj"
  shows "closure_inv devMode (c\<lparr>objects := (objects c)(a \<mapsto> obj')\<rparr>)"
  using assms by (simp add: closure_inv_def memo_ok_def progress_ok_def)

lemma inv_proxy_set:
  "closure_inv devMode c \<Longrightarrow> closure_inv devMode (snd (proxy_set devMode prop v c))"
  using proxy_set_cases[of devMode "prop" v c] inv_objects_update[of devMode c] by auto

lemma inv_destroy:
  assumes "closure_inv devMode c" shows "closure_inv devMode (snd (destroy c))"
proof (cases "registered c")
  case False
  then show ?thesis using assms by (simp add: destroy_def)
next
  case True
  show ?thesis
  proof (cases "isResolved (moduleAndValuePromise c)")
    case r: True
    show ?thesis
    proof (cases "d_value (moduleAndValuePromise c)")
      case None
      then show ?thesis using assms True r
        by (simp add: destroy_def closure_inv_def memo_ok_def progress_ok_def)
    next
      case (Some a)
      then show ?thesis using assms True r
        by (simp add: destroy_def closure_inv_def memo_ok_def progress_ok_def)
    qed
  next
    case r: False
    have d: "deferred_ok (reject destroyedError (moduleAndValuePromise c))"
      using assms by (simp add: closure_inv_def deferred_ok_reject)
    have p: "d_state (moduleAndValuePromise c) = Pending" "d_value (moduleAndValuePromise c) = None"
      using assms r by (simp_all add: closure_inv_def deferred_ok_def)
    show ?thesis using assms True r d p
      by (simp add: destroy_def closure_inv_def memo_ok_def progress_ok_def Let_def)
        (simp add: reject_def promise_reject_def)
  qed
qed

lemma suspended_facts:
  assumes "closure_inv devMode c" "suspended c = r # rest"
  shows "rest = []" "completed c = []" "factoryCalls c = 1" "creatorCalls c = 0"
    "getValue c = NotReadyFn" "d_value (moduleAndValuePromise c) = None"
    "teardownCalls c = 0"
    "getOrCreateValueAsync c = MemoFn 0" "getValueAsync c = MemoFn 0"
    "registered c \<Longrightarrow> d_state (moduleAndValuePromise c) = Pending"
    "registered c \<Longrightarrow> \<not> isResolved (moduleAndValuePromise c)"
    "\<not> registered c \<Longrightarrow> isResolved (moduleAndValuePromise c)"
    "\<not> registered c \<Longrightarrow> \<exists>e. d_state (moduleAndValuePromise c) = Rejected e"
proof -
  from assms have m: "memo_ok c" and d: "deferred_ok (moduleAndValuePromise c)"
    and p: "progress_ok devMode c"
    by (simp_all add: closure_inv_def)
  from m assms(2) have "factoryCalls c \<le> 1"
    "Suc (length (completed c) + length rest) = factoryCalls c"
    by (simp_all add: memo_ok_def)
  then have "length rest = 0 \<and> length (completed c) = 0 \<and> factoryCalls c = 1"
    by arith
  then show a: "rest = []" "completed c = []" "factoryCalls c = 1"
    by simp_all
  from m a show "getOrCreateValueAsync c = MemoFn 0" "getValueAsync c = MemoFn 0"
    by (simp_all add: memo_ok_def)
  from p a show b: "creatorCalls c = 0" "getValue c = NotReadyFn"
    "d_value (moduleAndValuePromise c) = None"
    by (simp_all add: progress_ok_def)
  from p b show "teardownCalls c = 0" by (simp add: progress_ok_def)
  from p a show q: "registered c \<Longrightarrow> d_state (moduleAndValuePromise c) = Pending"
    by (simp add: progress_ok_def)
  from d q show "registered c \<Longrightarrow> \<not> isResolved (moduleAndValuePromise c)"
    by (simp add: deferred_ok_def)
  from p show r: "\<not> registered c \<Longrightarrow> isResolved (moduleAndValuePromise c)"
    by (simp add: progress_ok_def)
  from d b r show "\<not> registered c \<Longrightarrow> \<exists>e. d_state (moduleAndValuePromise c) = Rejected e"
    by (cases "d_state (moduleAndValuePromise c)") (simp_all add: deferred_ok_def)
qed

lemma create_resume_registered:
  assumes "closure_inv devMode c" "suspended c = r # rest" "registered c"
  shows "create_resume devMode c =
     (case r of
        Creates obj t \<Rightarrow>
          c\<lparr>suspended := [], completed := [r], creatorCalls := 1,
            objects := (objects c)(0 \<mapsto> obj),
            moduleAndValuePromise :=
              \<lparr>isResolved = True, d_value = Some \<lparr>service = 0, destroy_throws = t\<rparr>,
               d_state = Fulfilled \<lparr>service = 0, destroy_throws = t\<rparr>\<rparr>,
            getValue := ServiceFn 0\<rparr>
      | CreatorThrows e \<Rightarrow>
          c\<lparr>suspended := [], completed := [r], creatorCalls := 1,
            moduleAndValuePromise :=
              \<lparr>isResolved = True, d_value = None, d_state = Rejected e\<rparr>,
            getValue := RethrowFn e\<rparr>
      | FactoryFails e \<Rightarrow>
          c\<lparr>suspended := [], completed := [r],
            moduleAndValuePromise :=
              \<lparr>isResolved = True, d_value = None, d_state = Rejected e\<rparr>,
            getValue := RethrowFn e\<rparr>
      | NoMarker \<Rightarrow>
          c\<lparr>suspended := [], completed := [r],
            moduleAndValuePromise :=
              \<lparr>isResolved = True, d_value = None, d_state = Rejected (configError devMode)\<rparr>,
            getValue := RethrowFn (configError devMode)\<rparr>)"
  using suspended_facts[OF assms(1,2)] assms(2,3)
  by (cases r)
    (simp_all add: create_resume_def create_failed_def reject_def resolve_def
      promise_reject_def promise_resolve_def Let_def)

lemma create_resume_destroyed:
  assumes "closure_inv devMode c" "suspended c = r # rest" "\<not> registered c"
  shows "\<exists>e. create_resume devMode c =
           c\<lparr>suspended := [], completed := [r], getValue := RethrowFn e\<rparr>"
proof -
  from suspended_facts[OF assms(1,2)] assms(3) obtain e' where
    f: "rest = []" "completed c = []" "isResolved (moduleAndValuePromise c)"
       "d_state (moduleAndValuePromise c) = Rejected e'"
    by auto
  have eq: "\<And>e. reject e (moduleAndValuePromise c) = moduleAndValuePromise c"
    using f by (simp add: reject_def promise_reject_def)
  show ?thesis
    using f assms(2) eq
    by (cases r) (auto simp: create_resume_def create_failed_def Let_def)
qed

lemma inv_create_resume:
  assumes "closure_inv devMode c"
  shows "closure_inv devMode (create_resume devMode c)"
proof (cases "suspended c")
  case Nil
  then show ?thesis using assms by (simp add: create_resume_def)
next
  case (Cons r rest)
  note f = suspended_facts[OF assms Cons]
  show ?thesis
  proof (cases "registered c")
    case True
    show ?thesis
      unfolding create_resume_registered[OF assms Cons True]
      using assms True f(3)
      by (cases r)
        (simp_all add: closure_inv_def memo_ok_def deferred_ok_def progress_ok_def)
  next
    case False
    from create_resume_destroyed[OF assms Cons False] obtain e where
      e: "create_resume devMode c = c\<lparr>suspended := [], completed := [r], getValue := RethrowFn e\<rparr>"
      by blast
    show ?thesis
      unfolding e
      using assms False f(1-3,6) Cons
      by (auto simp: closure_inv_def memo_ok_def deferred_ok_def progress_ok_def)
  qed
qed

lemma put_simps [simp]:
  "closures (put p ce s) = (closures s)(p \<mapsto> fst ce)"
  "environment (put p ce s) = snd ce"
  "isDevMode (put p ce s) = isDevMode s"
  "nextProxy (put p ce s) = nextProxy s"
  by (simp_all add: put_def)

lemma inv_load_moves: "closure_inv devMode c \<Longrightarrow> c' \<in> load_moves dm c \<Longrightarrow> closure_inv devMode c'"
  by (auto simp: load_moves_def inv_registration_load)

lemma inv_other_moves:
  "closure_inv devMode c \<Longrightarrow> c' \<in> other_moves devMode c \<Longrightarrow> closure_inv devMode c'"
  by (auto simp: other_moves_def inv_proxy_get inv_proxy_set inv_destroy inv_create_resume)

lemma load_movesI:
  "registered c \<Longrightarrow> fst (snd (registration_load dm (c, env))) \<in> load_moves dm c"
  by (auto simp: load_moves_def)

lemma other_movesI:
  "c \<in> other_moves devMode c"
  "fst (snd (proxy_get devMode name (c, env))) \<in> other_moves devMode c"
  "snd (proxy_set devMode name v c) \<in> other_moves devMode c"
  "snd (destroy c) \<in> other_moves devMode c"
  "create_resume devMode c \<in> other_moves devMode c"
  by (auto simp: other_moves_def)

lemma same_frame_refl [simp]: "same_frame s s"
  by (simp add: same_frame_def)

lemma same_frame_trans: "same_frame s s' \<Longrightarrow> same_frame s' s'' \<Longrightarrow> same_frame s s''"
  by (simp add: same_frame_def)

lemma same_frame_put [simp]: "closures s p \<noteq> None \<Longrightarrow> same_frame s (put p ce s)"
  by (auto simp: same_frame_def)

lemma load_frame: "same_frame s (snd (load s y))"
  by (simp add: load_def getServiceRegistration_def split: option.splits prod.splits)

lemma load_other: "y \<noteq> x \<Longrightarrow> closures (snd (load s y)) x = closures s x"
  by (simp add: load_def split: option.splits prod.splits)

lemma load_same:
  "closures s x = Some c \<Longrightarrow>
   closures (snd (load s x)) x =
     Some (if registered c then fst (snd (registration_load (isDevMode s) (c, environment s)))
           else c)"
  by (simp add: load_def getServiceRegistration_def split: prod.splits)

lemma get_frame: "same_frame s (snd (get s y name))"
  by (simp add: get_def split: option.splits prod.splits)

lemma get_other: "y \<noteq> x \<Longrightarrow> closures (snd (get s y name)) x = closures s x"
  by (simp add: get_def split: option.splits prod.splits)

lemma get_same:
  "closures s x = Some c \<Longrightarrow>
   closures (snd (get s x name)) x =
     Some (fst (snd (proxy_get (isDevMode s) name (c, environment s))))"
  by (simp add: get_def split: prod.splits)

lemma set_frame: "same_frame s (snd (set_member s y name v))"
  by (simp add: set_member_def split: option.splits prod.splits)

lemma set_other: "y \<noteq> x \<Longrightarrow> closures (snd (set_member s y name v)) x = closures s x"
  by (simp add: set_member_def split: option.splits prod.splits)

lemma set_same:
  "closures s x = Some c \<Longrightarrow>
   closures (snd (set_member s x name v)) x = Some (snd (proxy_set (isDevMode s) name v c))"
  by (simp add: set_member_def split: prod.splits)

lemma destroy_frame: "same_frame s (snd (destroy_proxy s y))"
  by (simp add: destroy_proxy_def split: option.splits prod.splits)

lemma destroy_other: "y \<noteq> x \<Longrightarrow> closures (snd (destroy_proxy s y)) x = closures s x"
  by (simp add: destroy_proxy_def split: option.splits prod.splits)

lemma destroy_same:
  "closures s x = Some c \<Longrightarrow> closures (snd (destroy_proxy s x)) x = Some (snd (destroy c))"
  by (simp add: destroy_proxy_def split: prod.splits)

lemma resume_frame: "same_frame s (resume s y)"
  by (simp add: resume_def split: option.splits)

lemma resume_other: "y \<noteq> x \<Longrightarrow> closures (resume s y) x = closures s x"
  by (simp add: resume_def split: option.splits)

lemma resume_same:
  "closures s x = Some c \<Longrightarrow> closures (resume s x) x = Some (create_resume (isDevMode s) c)"
  by (simp add: resume_def)

lemma destroy_each_frame: "same_frame s (snd (destroy_each ps s))"
proof (induction ps arbitrary: s)
  case Nil
  show ?case by simp
next
  case (Cons p ps)
  show ?case
    using destroy_frame[of s p] Cons.IH[of "snd (destroy_proxy s p)"]
    by (auto split: prod.splits option.splits intro: same_frame_trans)
qed

lemma destroy_twice: "snd (destroy (snd (destroy c))) = snd (destroy c)"
  by (simp add: destroy_def Let_def split: option.splits)

lemma destroy_each_at:
  "closures s x = Some c \<Longrightarrow>
   closures (snd (destroy_each ps s)) x = Some c \<or>
   closures (snd (destroy_each ps s)) x = Some (snd (destroy c))"
proof (induction ps arbitrary: s c)
  case Nil
  then show ?case by simp
next
  case (Cons p ps)
  obtain e s' where d: "destroy_proxy s p = (e, s')" by (cases "destroy_proxy s p")
  show ?case
  proof (cases "p = x")
    case True
    have s': "closures s' x = Some (snd (destroy c))"
      using destroy_same[OF Cons.prems] d True by simp
    from Cons.IH[OF s'] s' d show ?thesis
      by (cases e) (simp_all add: destroy_twice)
  next
    case False
    have s': "closures s' x = Some c"
      using destroy_other[OF False, of s] d Cons.prems by simp
    from Cons.IH[OF s'] s' d show ?thesis
      by (cases e) simp_all
  qed
qed

lemma ngOnDestroy_frame: "same_frame s (snd (ngOnDestroy s))"
  by (simp add: ngOnDestroy_def destroy_each_frame)

lemma ngOnDestroy_at:
  "closures s x = Some c \<Longrightarrow>
   closures (snd (ngOnDestroy s)) x = Some c \<or>
   closures (snd (ngOnDestroy s)) x = Some (snd (destroy c))"
  by (simp add: ngOnDestroy_def destroy_each_at)

lemma create_frame:
  "isDevMode (snd (create t f sp s)) = isDevMode s"
  "nextProxy (snd (create t f sp s)) = Suc (nextProxy s)"
  "fst (create t f sp s) = nextProxy s"
  "closures (snd (create t f sp s)) =
     (closures s)(nextProxy s \<mapsto> fst (create_closure t f sp (environment s)))"
  by (simp_all add: create_def Let_def)

text \<open>One event, seen from the closure of \<open>x\<close>.\<close>

lemma step_at:
  assumes "closures s x = Some c" "x < nextProxy s"
  shows "\<exists>c'. closures (step s ev) x = Some c' \<and>
           (c' \<in> other_moves (isDevMode s) c \<or> (ev = Load x \<and> c' \<in> load_moves (isDevMode s) c))"
proof (cases ev)
  case (Create t f sp)
  then show ?thesis using assms by (simp add: create_frame other_movesI)
next
  case (Load y)
  then show ?thesis using assms load_other[of y x s] load_same[OF assms(1)]
    by (cases "y = x") (auto simp: other_movesI load_movesI)
next
  case (Get y name)
  then show ?thesis using assms get_other[of y x s name] get_same[OF assms(1), of name]
    by (cases "y = x") (auto simp: other_movesI)
next
  case (Set y name v)
  then show ?thesis using assms set_other[of y x s name v] set_same[OF assms(1), of name v]
    by (cases "y = x") (auto simp: other_movesI)
next
  case (Has y name)
  then show ?thesis using assms by (simp add: other_movesI)
next
  case (Structural y operation)
  then show ?thesis using assms by (simp add: other_movesI)
next
  case (Destroy y)
  then show ?thesis using assms destroy_other[of y x s] destroy_same[OF assms(1)]
    by (cases "y = x") (auto simp: other_movesI)
next
  case (Resume y)
  then show ?thesis using assms resume_other[of y x s] resume_same[OF assms(1)]
    by (cases "y = x") (auto simp: other_movesI)
next
  case NgOnDestroy
  then show ?thesis using ngOnDestroy_at[OF assms(1)] by (auto simp: other_movesI)
qed

lemma step_frame:
  "isDevMode (step s ev) = isDevMode s \<and> nextProxy s \<le> nextProxy (step s ev)"
proof (cases ev)
  case (Create t f sp)
  then show ?thesis by (simp add: create_frame)
next
  case (Load y)
  then show ?thesis using load_frame[of s y] by (simp add: same_frame_def)
next
  case (Get y name)
  then show ?thesis using get_frame[of s y name] by (simp add: same_frame_def)
next
  case (Set y name v)
  then show ?thesis using set_frame[of s y name v] by (simp add: same_frame_def)
next
  case (Destroy y)
  then show ?thesis using destroy_frame[of s y] by (simp add: same_frame_def)
next
  case (Resume y)
  then show ?thesis using resume_frame[of s y] by (simp add: same_frame_def)
next
  case NgOnDestroy
  then show ?thesis using ngOnDestroy_frame[of s] by (simp add: same_frame_def)
qed simp_all

lemma same_frame_None: "same_frame s s' \<Longrightarrow> closures s p = None \<Longrightarrow> closures s' p = None"
  using domIff[of p "closures s"] domIff[of p "closures s'"] by (simp add: same_frame_def)

lemma same_frame_bound:
  assumes "same_frame s s'" "\<forall>p. closures s p \<noteq> None \<longrightarrow> p < nextProxy s"
  shows "\<forall>p. closures s' p \<noteq> None \<longrightarrow> p < nextProxy s'"
proof (intro allI impI)
  fix p assume "closures s' p \<noteq> None"
  then have "closures s p \<noteq> None" using same_frame_None[OF assms(1), of p]
    by (cases "closures s p") simp_all
  then show "p < nextProxy s'" using assms by (simp add: same_frame_def)
qed

lemma step_same_frame: "(\<exists>t f sp. ev = Create t f sp) \<or> same_frame s (step s ev)"
  by (cases ev)
    (simp_all add: load_frame get_frame set_frame destroy_frame resume_frame ngOnDestroy_frame)

lemma step_dom:
  assumes "\<forall>p. closures s p \<noteq> None \<longrightarrow> p < nextProxy s"
  shows "\<forall>p. closures (step s ev) p \<noteq> None \<longrightarrow> p < nextProxy (step s ev)"
  using step_same_frame[of ev s]
proof
  assume "\<exists>t f sp. ev = Create t f sp"
  then show ?thesis using assms by (auto simp: create_frame less_Suc_eq)
next
  assume "same_frame s (step s ev)"
  then show ?thesis using assms by (rule same_frame_bound)
qed

lemma loader_inv_step:
  assumes "loader_inv s" shows "loader_inv (step s ev)"
proof -
  have d: "\<forall>p. closures (step s ev) p \<noteq> None \<longrightarrow> p < nextProxy (step s ev)"
    using assms by (intro step_dom) (simp add: loader_inv_def)
  have "closure_inv (isDevMode (step s ev)) c'" if c': "closures (step s ev) p = Some c'" for p c'
  proof (cases "closures s p")
    case None
    with c' same_frame_None[of s "step s ev" p] step_same_frame[of ev s]
    obtain t f sp where ev: "ev = Create t f sp" by auto
    with c' None have "c' = fst (create_closure t (plain f) sp (environment s))"
      by (auto simp: create_frame split: if_splits)
    then show ?thesis by (simp add: inv_create_closure)
  next
    case (Some c)
    then have "p < nextProxy s" "closure_inv (isDevMode s) c"
      using assms by (auto simp: loader_inv_def)
    with step_at[OF Some this(1), of ev] c' show ?thesis
      using step_frame[of s ev] inv_other_moves inv_load_moves by auto
  qed
  with d show ?thesis by (simp add: loader_inv_def)
qed

lemma run_snoc: "run s (evs @ [ev]) = step (run s evs) ev"
  by (simp add: run_def)

lemma run_Nil: "run s [] = s"
  by (simp add: run_def)

lemma run_append: "run s (evs @ evs') = run (run s evs) evs'"
  by (simp add: run_def)

lemma loader_inv_run: "loader_inv s \<Longrightarrow> loader_inv (run s evs)"
  by (induction evs rule: rev_induct) (simp_all add: run_Nil run_snoc loader_inv_step)

lemma loader_inv_new: "loader_inv (new_LazyServiceLoader env devMode)"
  by (simp add: loader_inv_def new_LazyServiceLoader_def)

lemma reachable_inv:
  "loader_inv (run (new_LazyServiceLoader env devMode) evs)"
  by (simp add: loader_inv_run loader_inv_new)

lemma run_isDevMode: "isDevMode (run s evs) = isDevMode s"
  by (induction evs rule: rev_induct) (simp_all add: run_Nil run_snoc step_frame)

lemma run_nextProxy: "nextProxy s \<le> nextProxy (run s evs)"
proof (induction evs rule: rev_induct)
  case Nil
  show ?case by (simp add: run_Nil)
next
  case (snoc ev evs)
  then show ?case using step_frame[of "run s evs" ev] by (simp add: run_snoc)
qed

text \<open>A property of one closure that every operation keeps holds along every run;
  likewise for a property kept by every operation but \<^verbatim>\<open>load\<close>, along the runs that do not
  load that proxy.\<close>

lemma run_keeps:
  assumes keep: "\<And>c c'. P c \<Longrightarrow> c' \<in> other_moves (isDevMode s) c \<union> load_moves (isDevMode s) c \<Longrightarrow> P c'"
    and "closures s x = Some c" "P c" "x < nextProxy s"
  shows "\<exists>c'. closures (run s evs) x = Some c' \<and> P c'"
proof (induction evs rule: rev_induct)
  case Nil
  then show ?case using assms by (simp add: run_Nil)
next
  case (snoc ev evs)
  then obtain c1 where c1: "closures (run s evs) x = Some c1" "P c1" by blast
  have "x < nextProxy (run s evs)" using assms(4) run_nextProxy[of s evs] by simp
  from step_at[OF c1(1) this, of ev] c1(2) keep show ?case
    by (auto simp: run_snoc run_isDevMode)
qed

lemma run_keeps_unloaded:
  assumes keep: "\<And>c c'. P c \<Longrightarrow> c' \<in> other_moves (isDevMode s) c \<Longrightarrow> P c'"
    and "closures s x = Some c" "P c" "x < nextProxy s" "Load x \<notin> set evs"
  shows "\<exists>c'. closures (run s evs) x = Some c' \<and> P c'"
  using assms(5)
proof (induction evs rule: rev_induct)
  case Nil
  then show ?case using assms by (simp add: run_Nil)
next
  case (snoc ev evs)
  then obtain c1 where c1: "closures (run s evs) x = Some c1" "P c1" by auto
  have "x < nextProxy (run s evs)" using assms(4) run_nextProxy[of s evs] by simp
  from step_at[OF c1(1) this, of ev] c1(2) keep snoc.prems show ?case
    by (auto simp: run_snoc run_isDevMode)
qed

section \<open>Facts about reachable loaders\<close>

text \<open>The definitions of the model, for evaluating a run on concrete events.\<close>

lemmas model_defs =
  run_def create_def create_closure_def new_closure_def new_LazyServiceLoader_def
  new_Deferred_def put_def load_def getServiceRegistration_def registration_load_def
  call_async_def call_async_with_def plain_def get_def set_member_def has_def structural_def
  destroy_proxy_def resume_def
  ngOnDestroy_def destroy_def create_resume_def create_failed_def reject_def resolve_def
  promise_reject_def promise_resolve_def proxy_get_def proxy_get_with_def proxy_set_def
  proxy_has_def
  proxy_structural_def call_getValue_def Reflect_get_def Reflect_set_def Reflect_has_def
  isReady_def whenReady_def outcome_def await_void_def notSupported_def destroyedError_def
  configError_def notReadyMessage_def Let_def

text \<open>The definitions of the example loaders.\<close>

lemmas demo_defs =
  yields_def counting_def demo_safe_def demo_impl_def explicit_loader_def loading_loader_def
  ready_loader_def failed_loader_def cancelled_loader_def destroyed_loader_def
  unloaded_loader_def counted_loader_def determine_C_def demo_differential_def
  differential_loader_def

lemma reachable_closure:
  assumes "s = run (new_LazyServiceLoader env devMode) evs" "closures s x = Some c"
  shows "closure_inv devMode c" "x < nextProxy s" "isDevMode s = devMode"
proof -
  have i: "loader_inv s" using assms(1) reachable_inv by simp
  have d: "isDevMode s = devMode"
    using assms(1) by (simp add: run_isDevMode new_LazyServiceLoader_def)
  show "isDevMode s = devMode" by (rule d)
  from i assms(2) d show "closure_inv devMode c" by (auto simp: loader_inv_def)
  from i assms(2) show "x < nextProxy s" by (auto simp: loader_inv_def)
qed

lemma settles_to_not_Pending: "settles_to devMode r \<noteq> Pending"
  by (cases r) simp_all

lemma registered_facts:
  assumes "closure_inv devMode c" "registered c"
  shows "\<not> revoked c"
    "isResolved (moduleAndValuePromise c) \<longleftrightarrow> completed c \<noteq> []"
    "completed c = [] \<longleftrightarrow> factoryCalls c = 0 \<or> suspended c \<noteq> []"
    "d_state (moduleAndValuePromise c) =
       (case completed c of [] \<Rightarrow> Pending | r # _ \<Rightarrow> settles_to devMode r)"
    "getValue c =
       (case d_state (moduleAndValuePromise c) of
          Pending \<Rightarrow> NotReadyFn
        | Rejected e \<Rightarrow> RethrowFn e
        | Fulfilled r \<Rightarrow> ServiceFn (service r))"
    "teardownCalls c = 0"
proof -
  from assms have m: "memo_ok c" and d: "deferred_ok (moduleAndValuePromise c)"
    and p: "progress_ok devMode c"
    by (simp_all add: closure_inv_def)
  from p assms(2) show "\<not> revoked c" by (simp add: progress_ok_def)
  from p assms(2) show s: "d_state (moduleAndValuePromise c) =
       (case completed c of [] \<Rightarrow> Pending | r # _ \<Rightarrow> settles_to devMode r)"
    by (simp add: progress_ok_def)
  from d s show "isResolved (moduleAndValuePromise c) \<longleftrightarrow> completed c \<noteq> []"
    by (cases "completed c") (simp_all add: deferred_ok_def settles_to_not_Pending)
  from m have "factoryCalls c \<le> 1" "length (completed c) + length (suspended c) = factoryCalls c"
    by (simp_all add: memo_ok_def)
  then have "length (completed c) = 0 \<longleftrightarrow> factoryCalls c = 0 \<or> length (suspended c) \<noteq> 0"
    by arith
  then show "completed c = [] \<longleftrightarrow> factoryCalls c = 0 \<or> suspended c \<noteq> []" by simp
  from p assms(2) show "getValue c =
       (case d_state (moduleAndValuePromise c) of
          Pending \<Rightarrow> NotReadyFn
        | Rejected e \<Rightarrow> RethrowFn e
        | Fulfilled r \<Rightarrow> ServiceFn (service r))"
    by (simp add: progress_ok_def)
  from p assms(2) show "teardownCalls c = 0" by (simp add: progress_ok_def)
qed

lemma put_same: "closures s x = Some c \<Longrightarrow> put x (c, environment s) s = s"
  by (simp add: put_def map_upd_triv)

section \<open>Single operations\<close>

lemma create_resume_registry:
  "registered (create_resume devMode c) = registered c \<and>
   revoked (create_resume devMode c) = revoked c"
  by (simp add: create_resume_def create_failed_def Let_def
      split: list.splits serviceFactory_result.splits promise.splits)

lemma revoked_get: "revoked c \<Longrightarrow> proxy_get devMode name (c, env) = (Inl (TypeError ''get''), c, env)"
  by (simp add: proxy_get_unfold)

lemma revoked_set: "revoked c \<Longrightarrow> proxy_set devMode name v c = (Inl (TypeError ''set''), c)"
  by (simp add: proxy_set_def)

lemma unregistered_destroy: "\<not> registered c \<Longrightarrow> destroy c = (None, c)"
  by (simp add: destroy_def)

lemma destroyed_kept:
  assumes "destroyed c" "c' \<in> other_moves devMode c \<union> load_moves devMode c"
  shows "destroyed c'"
  using assms create_resume_registry[of devMode c]
  by (auto simp: destroyed_def other_moves_def load_moves_def revoked_get revoked_set
      unregistered_destroy)

lemma destroyed_ops:
  assumes "closures s x = Some c" "destroyed c"
  shows "get s x name = (Some (Inl (TypeError ''get'')), s)"
    "set_member s x name v = (Some (Inl (TypeError ''set'')), s)"
    "has s x name = Some (Inl (TypeError ''has''))"
    "structural s x operation = Some (Inl (TypeError (trap_name operation)))"
    "destroy_proxy s x = (None, s)"
    "load s x = (None, s)"
    "getServiceRegistration s x = None"
  using assms put_same[OF assms(1)]
  by (simp_all add: destroyed_def get_def set_member_def has_def structural_def
      destroy_proxy_def load_def getServiceRegistration_def revoked_get revoked_set
      unregistered_destroy proxy_has_def proxy_structural_def)

lemma destroy_registered:
  assumes "closure_inv devMode c" "registered c"
  shows "destroyed (snd (destroy c))"
  using assms
  by (simp add: destroy_def destroyed_def Let_def split: option.splits)

lemma reject_settled:
  "d_state d = Rejected e' \<Longrightarrow> isResolved d \<Longrightarrow> reject e d = d"
  by (simp add: reject_def promise_reject_def)

lemma create_resume_early:
  assumes "destroyed_early c"
  shows "destroyed_early (create_resume devMode c)"
  using assms
  by (simp add: destroyed_early_def destroyed_def create_resume_def create_failed_def
      reject_settled Let_def split: list.splits serviceFactory_result.splits)

lemma destroyed_early_kept:
  assumes "destroyed_early c" "c' \<in> other_moves devMode c \<union> load_moves devMode c"
  shows "destroyed_early c'"
  using assms create_resume_early[of c devMode]
  by (auto simp: destroyed_early_def destroyed_def other_moves_def load_moves_def
      revoked_get revoked_set unregistered_destroy)

lemma destroy_early:
  assumes "closure_inv devMode c" "registered c" "completed c = []"
  shows "destroyed_early (snd (destroy c))" "fst (destroy c) = None"
proof -
  from registered_facts(2,4,6)[OF assms(1,2)] assms(3)
  have f: "\<not> isResolved (moduleAndValuePromise c)"
    "d_state (moduleAndValuePromise c) = Pending" "teardownCalls c = 0"
    by simp_all
  from assms(1,3) have g: "creatorCalls c = 0" "d_value (moduleAndValuePromise c) = None"
    by (simp_all add: closure_inv_def progress_ok_def)
  from f g assms(2) show "destroyed_early (snd (destroy c))" "fst (destroy c) = None"
    by (simp_all add: destroy_def destroyed_early_def destroyed_def Let_def reject_def
        promise_reject_def)
qed

lemma started_closure:
  assumes "closure_inv devMode c" "registered c" "f = getOrCreateValueAsync c \<or> (f = getValueAsync c \<and> trigger c \<noteq> Explicit)"
  shows "fst (call_async dm f (c, env)) = ValuePromise 0"
    "factoryCalls (fst (snd (call_async dm f (c, env)))) = 1"
    "factoryCalls c = 1 \<Longrightarrow> call_async dm f (c, env) = (ValuePromise 0, c, env)"
    "registered (fst (snd (call_async dm f (c, env))))"
proof -
  from assms(1) have m: "memo_ok c" by (simp add: closure_inv_def)
  from assms(3) have a: "f = getOrCreateValueAsync c \<or> f = getValueAsync c" by blast
  from m assms(3) have n: "f \<noteq> ThenFn" by (auto simp: memo_ok_def split: if_splits)
  from call_async_cases[OF m a, of dm env] n assms(2)
  show "fst (call_async dm f (c, env)) = ValuePromise 0"
    "factoryCalls (fst (snd (call_async dm f (c, env)))) = 1"
    "factoryCalls c = 1 \<Longrightarrow> call_async dm f (c, env) = (ValuePromise 0, c, env)"
    "registered (fst (snd (call_async dm f (c, env))))"
    by auto
qed

lemma load_started:
  assumes "closure_inv devMode c" "registered c" "closures s x = Some c"
  shows "fst (load s x) = Some (ValuePromise 0)"
    "\<exists>c'. closures (snd (load s x)) x = Some c' \<and> factoryCalls c' = 1 \<and> registered c'"
    "factoryCalls c = 1 \<Longrightarrow> snd (load s x) = s"
proof -
  note st = started_closure[OF assms(1,2), of "getOrCreateValueAsync c" "isDevMode s"
      "environment s"]
  obtain p c' env' where r: "registration_load (isDevMode s) (c, environment s) = (p, c', env')"
    by (cases "registration_load (isDevMode s) (c, environment s)")
  from r st(1,2,4) have p: "p = ValuePromise 0" "factoryCalls c' = 1" "registered c'"
    by (simp_all add: registration_load_def)
  from r assms(2,3) have l: "load s x = (Some p, put x (c', env') s)"
    by (simp add: load_def getServiceRegistration_def)
  from l p show "fst (load s x) = Some (ValuePromise 0)" by simp
  from l p show "\<exists>c'. closures (snd (load s x)) x = Some c' \<and> factoryCalls c' = 1 \<and> registered c'"
    by simp
  show "snd (load s x) = s" if "factoryCalls c = 1"
    using st(3)[OF _ that] r l put_same[OF assms(3)] by (simp add: registration_load_def)
qed

lemma safe_get_started:
  assumes "closure_inv devMode c" "registered c" "closures s x = Some c"
    "trigger c \<noteq> Explicit" "safeProperties c name = Some g"
    "name \<noteq> ''ngOnDestroy''" "name \<noteq> ''constructor''" "isDevMode s = devMode"
  shows "fst (get s x name) = Some (Inr (SafeWrapper g (ValuePromise 0)))"
    "\<exists>c'. closures (snd (get s x name)) x = Some c' \<and> factoryCalls c' = 1"
    "factoryCalls c = 1 \<Longrightarrow> snd (get s x name) = s"
proof -
  note st = started_closure[OF assms(1,2), of "getValueAsync c" devMode "environment s"]
  note nr = registered_facts(1)[OF assms(1,2)]
  obtain p c' env' where
    r: "call_async devMode (getValueAsync c) (c, environment s) = (p, c', env')"
    by (cases "call_async devMode (getValueAsync c) (c, environment s)")
  from r st(1,2) assms(4) have p: "p = ValuePromise 0" "factoryCalls c' = 1"
    by simp_all
  from r nr assms(3,5,6,7,8) have l: "get s x name = (Some (Inr (SafeWrapper g p)), put x (c', env') s)"
    by (simp add: get_def proxy_get_unfold)
  from l p show "fst (get s x name) = Some (Inr (SafeWrapper g (ValuePromise 0)))" by simp
  from l p show "\<exists>c'. closures (snd (get s x name)) x = Some c' \<and> factoryCalls c' = 1" by simp
  show "snd (get s x name) = s" if "factoryCalls c = 1"
    using st(3)[OF _ that] assms(4) r l put_same[OF assms(3)] by simp
qed

lemma load_unregistered:
  "closures s x = Some c \<Longrightarrow> \<not> registered c \<Longrightarrow> load s x = (None, s)"
  by (simp add: load_def getServiceRegistration_def)

lemma explicit_idle_new: "explicit_idle sp (fst (create_closure Explicit f sp env))"
  by (simp add: explicit_idle_def create_closure_def new_closure_def new_Deferred_def)

lemma explicit_idle_get:
  assumes "explicit_idle sp c"
  shows "fst (snd (proxy_get devMode name (c, env))) = c"
    "snd (snd (proxy_get devMode name (c, env))) = env"
  using assms
  by (simp_all add: explicit_idle_def proxy_get_unfold call_async_def call_async_with_def
      call_getValue_def split: option.splits)

lemma explicit_idle_set:
  assumes "explicit_idle sp c"
  shows "snd (proxy_set devMode name v c) = c"
  using assms
  by (simp add: explicit_idle_def proxy_set_def call_getValue_def)

lemma explicit_idle_resume:
  assumes "explicit_idle sp c"
  shows "create_resume devMode c = c"
  using assms by (simp add: explicit_idle_def create_resume_def)

lemma explicit_idle_destroy:
  assumes "explicit_idle sp c"
  shows "explicit_idle sp (snd (destroy c))"
  using assms by (simp add: explicit_idle_def destroy_def Let_def)

lemma explicit_idle_kept:
  assumes "explicit_idle sp c" "c' \<in> other_moves devMode c"
  shows "explicit_idle sp c'"
  using assms explicit_idle_destroy[of sp c]
  by (auto simp: other_moves_def explicit_idle_get explicit_idle_set explicit_idle_resume)

lemma create_load_resume:
  assumes "f (environment s0) = (r, env1)"
    and "x = nextProxy s0"
    and "s' = resume (snd (load (snd (create t (plain f) sp s0)) x)) x"
  shows "environment s' = env1 \<and>
         (\<exists>c. closures s' x = Some c \<and> factoryCalls c = 1 \<and> suspended c = [] \<and>
            completed c = [r] \<and> registered c \<and>
            d_state (moduleAndValuePromise c) = settles_to (isDevMode s0) r \<and>
            getValue c =
              (case settles_to (isDevMode s0) r of
                 Pending \<Rightarrow> NotReadyFn
               | Rejected e \<Rightarrow> RethrowFn e
               | Fulfilled v \<Rightarrow> ServiceFn (service v)))"
proof (cases "t = OnInjection")
  case True
  with assms show ?thesis
    by (cases r)
      (simp_all add: create_def create_closure_def new_closure_def call_async_def
        call_async_with_def plain_def load_def
        getServiceRegistration_def registration_load_def resume_def create_resume_def
        create_failed_def reject_def resolve_def promise_reject_def promise_resolve_def
        new_Deferred_def put_def Let_def)
next
  case False
  with assms show ?thesis
    by (cases r)
      (simp_all add: create_def create_closure_def new_closure_def call_async_def
        call_async_with_def plain_def load_def
        getServiceRegistration_def registration_load_def resume_def create_resume_def
        create_failed_def reject_def resolve_def promise_reject_def promise_resolve_def
        new_Deferred_def put_def Let_def)
qed

lemma counted_once:
  "fst (snd (differential_serviceFactory String
      \<lparr>determine = counted det, fallbackServiceFactory = map_option uncounted fb,
       serviceFactories = map_option uncounted \<circ> sf,
       df_trigger = t, df_safeProperties = sp\<rparr> (n, env))) = Suc n"
  by (simp add: differential_serviceFactory_def counted_def uncounted_def
      split: prod.splits sum.splits option.splits)

section \<open>Properties of the loader\<close>

text \<open>
  In the statements below a loader state \<open>s\<close> is any state the loader can reach from
  its creation, by any list of events; the construction closures of those events do
  not call back, and what a closure that does leads to is the subject of C3. A
  surrogate is a proxy \<open>x\<close> whose closure is
  \<open>registered\<close>, that is, a key of \<^verbatim>\<open>#services\<close>; a proxy that was destroyed, like a
  value the loader never made, is a value not registered as a surrogate.
\<close>

text \<open>
  C1, in the form the code satisfies. \<^verbatim>\<open>whenReady(x)\<close> resolves at once for every
  value not registered as a surrogate, a destroyed surrogate included. For a surrogate
  its promise settles as
  the Deferred does: pending while no run of \<^verbatim>\<open>create()\<close> has gone past its \<^verbatim>\<open>await\<close>,
  completed when construction succeeded, and rejected with the failure when the
  construction closure threw or rejected, yielded no creator, or the creator threw.
\<close>

theorem whenReady_settles_as_construction:
  assumes "s = run (new_LazyServiceLoader env devMode) evs"
  shows "outcome s (whenReady s x) =
     (case closures s x of
        None \<Rightarrow> Fulfilled ()
      | Some c \<Rightarrow>
          if registered c
          then (case completed c of
                  [] \<Rightarrow> Pending
                | FactoryFails e # _ \<Rightarrow> Rejected e
                | NoMarker # _ \<Rightarrow> Rejected (configError devMode)
                | CreatorThrows e # _ \<Rightarrow> Rejected e
                | Creates obj t # _ \<Rightarrow> Fulfilled ())
          else Fulfilled ())"
proof (cases "closures s x")
  case None
  then show ?thesis by (simp add: whenReady_def outcome_def getServiceRegistration_def)
next
  case (Some c)
  note inv = reachable_closure(1)[OF assms Some]
  show ?thesis
  proof (cases "registered c")
    case True
    from registered_facts(4)[OF inv True] Some True show ?thesis
      by (simp add: whenReady_def outcome_def getServiceRegistration_def await_void_def
          split: list.splits serviceFactory_result.splits)
  next
    case False
    with Some show ?thesis by (simp add: whenReady_def outcome_def getServiceRegistration_def)
  qed
qed

text \<open>That \<^verbatim>\<open>whenReady\<close> completes without error after a failed construction does not
  hold: the construction closure of a surrogate rejects, the surrogate is still
  registered and reports ready, and \<^verbatim>\<open>whenReady\<close> rejects with the closure's error.\<close>

theorem whenReady_rejects_counterexample:
  "getServiceRegistration failed_loader 0 \<noteq> None \<and>
   isReady failed_loader 0 \<and>
   outcome failed_loader (whenReady failed_loader 0) = Rejected (Error ''boom'')"
  by (simp add: demo_defs model_defs)

text \<open>Instances: the ready, the failed, the loading and the destroyed loader, and a value
  the loader never made.\<close>

theorem whenReady_settles_as_construction_witness:
  "outcome ready_loader (whenReady ready_loader 0) = Fulfilled () \<and>
   outcome failed_loader (whenReady failed_loader 0) = Rejected (Error ''boom'') \<and>
   outcome loading_loader (whenReady loading_loader 0) = Pending \<and>
   outcome destroyed_loader (whenReady destroyed_loader 0) = Fulfilled () \<and>
   outcome explicit_loader (whenReady explicit_loader 7) = Fulfilled ()"
  using whenReady_settles_as_construction[of ready_loader "()" True
      "[Create OnAccess (yields demo_impl) demo_safe, Get 0 ''safePromise'', Resume 0]" 0]
    whenReady_settles_as_construction[of failed_loader "()" True
      "[Create Explicit (yields (FactoryFails (Error ''boom''))) demo_safe, Load 0, Resume 0]" 0]
    whenReady_settles_as_construction[of loading_loader "()" True
      "[Create OnInjection (yields demo_impl) demo_safe]" 0]
    whenReady_settles_as_construction[of destroyed_loader "()" True
      "[Create OnAccess (yields demo_impl) demo_safe, Get 0 ''safePromise'', Resume 0,
        Destroy 0, Load 0, Resume 0]" 0]
    whenReady_settles_as_construction[of explicit_loader "()" True
      "[Create Explicit (yields demo_impl) demo_safe]" 7]
  by (simp add: demo_defs model_defs)

text \<open>
  C2. \<^verbatim>\<open>isReady(x)\<close> is true for every value not registered as a surrogate. For a
  surrogate it is true exactly when the construction outcome has settled, that is, when
  the run of \<^verbatim>\<open>create()\<close> has gone past its \<^verbatim>\<open>await\<close> (whether it then succeeded
  or failed); it is false while construction has not begun (the construction closure
  was never called) or is in flight (the run of \<^verbatim>\<open>create()\<close> is suspended).
\<close>

theorem isReady_iff_outcome_settled:
  assumes "s = run (new_LazyServiceLoader env devMode) evs"
  shows "case closures s x of
           None \<Rightarrow> isReady s x
         | Some c \<Rightarrow>
             if registered c
             then (isReady s x \<longleftrightarrow> completed c \<noteq> []) \<and>
                  (completed c = [] \<longleftrightarrow> factoryCalls c = 0 \<or> suspended c \<noteq> [])
             else isReady s x"
proof (cases "closures s x")
  case None
  then show ?thesis by (simp add: isReady_def getServiceRegistration_def)
next
  case (Some c)
  note inv = reachable_closure(1)[OF assms Some]
  show ?thesis
  proof (cases "registered c")
    case True
    from registered_facts(2,3)[OF inv True] Some True show ?thesis
      by (simp add: isReady_def getServiceRegistration_def)
  next
    case False
    with Some show ?thesis by (simp add: isReady_def getServiceRegistration_def)
  qed
qed

text \<open>Instances: the loaders whose construction failed and succeeded report ready, the
  ones whose construction is in flight and has not begun do not; a value the loader
  never made and a destroyed proxy are reported ready.\<close>

theorem isReady_iff_outcome_settled_witness:
  "isReady failed_loader 0 \<and> isReady ready_loader 0 \<and>
   \<not> isReady loading_loader 0 \<and> \<not> isReady explicit_loader 0 \<and>
   isReady explicit_loader 7 \<and> isReady destroyed_loader 0"
  using isReady_iff_outcome_settled[of failed_loader "()" True
      "[Create Explicit (yields (FactoryFails (Error ''boom''))) demo_safe, Load 0, Resume 0]" 0]
    isReady_iff_outcome_settled[of ready_loader "()" True
      "[Create OnAccess (yields demo_impl) demo_safe, Get 0 ''safePromise'', Resume 0]" 0]
    isReady_iff_outcome_settled[of loading_loader "()" True
      "[Create OnInjection (yields demo_impl) demo_safe]" 0]
    isReady_iff_outcome_settled[of explicit_loader "()" True
      "[Create Explicit (yields demo_impl) demo_safe]" 0]
    isReady_iff_outcome_settled[of explicit_loader "()" True
      "[Create Explicit (yields demo_impl) demo_safe]" 7]
    isReady_iff_outcome_settled[of destroyed_loader "()" True
      "[Create OnAccess (yields demo_impl) demo_safe, Get 0 ''safePromise'', Resume 0,
        Destroy 0, Load 0, Resume 0]" 0]
  by (simp add: demo_defs model_defs)

text \<open>
  C3, that the construction closure is invoked at most once and that every triggering
  call gets the same promise, does not hold of the code. The initial getter calls
  \<^verbatim>\<open>create()\<close>, which invokes the closure, and only afterwards reassigns the two getter
  variables (lines 517 and 518). A surrogate is made on access, with a construction
  closure that counts its invocations and, the first time it runs, loads its own
  surrogate (or reads a safe member of it). At the caller's first \<^verbatim>\<open>load\<close> (or first
  read of a safe member) the closure is invoked twice and two runs of \<^verbatim>\<open>create()\<close> are
  suspended, each behind a \<^verbatim>\<open>valuePromise\<close> of its own; the caller is handed the first
  one's, which the getters then keep.
\<close>

theorem reentrant_closure_runs_twice:
  "getServiceRegistration (reentrant_loader LoadsService) 0 \<noteq> None \<and>
   map_option factoryCalls (closures (reentrant_loader LoadsService) 0) = Some 0 \<and>
   fst (load (reentrant_loader LoadsService) 0) = Some (ValuePromise 0) \<and>
   map_option factoryCalls (closures (snd (load (reentrant_loader LoadsService) 0)) 0) = Some 2 \<and>
   map_option suspended (closures (snd (load (reentrant_loader LoadsService) 0)) 0) =
     Some [demo_impl, demo_impl] \<and>
   map_option getOrCreateValueAsync (closures (snd (load (reentrant_loader LoadsService) 0)) 0) =
     Some (MemoFn 0) \<and>
   environment (snd (load (reentrant_loader LoadsService) 0)) = 2 \<and>
   fst (get (reentrant_loader (ReadsMember ''safePromise'')) 0 ''safePromise'') =
     Some (Inr (SafeWrapper PromiseProperty (ValuePromise 0))) \<and>
   map_option factoryCalls
     (closures (snd (get (reentrant_loader (ReadsMember ''safePromise'')) 0 ''safePromise'')) 0) =
     Some 2 \<and>
   environment (snd (get (reentrant_loader (ReadsMember ''safePromise'')) 0 ''safePromise'')) = 2"
  by (simp add: reentrant_loader_def calls_back_once_def call_back_limit demo_safe_def
      model_defs)

text \<open>
  With a construction closure that does not call back, the reassignment does what it
  is there for. For every proxy such a run of the loader has made, under every trigger,
  the construction closure has been invoked at most once, and once already if the
  trigger is \<open>OnInjection\<close>. On a surrogate, \<^verbatim>\<open>load\<close> and, unless the trigger is
  \<open>Explicit\<close>, a \<^verbatim>\<open>get\<close> of a safe member (other than the intercepted names) are
  triggering calls: each returns the one promise \<^verbatim>\<open>valuePromise\<close> (the safe getter wraps
  it), leaves the closure with exactly one invocation made, and changes nothing at all
  when the invocation was made before. A second \<^verbatim>\<open>load\<close> repeats the first one's result
  and leaves the loader as the first left it. On a destroyed proxy \<^verbatim>\<open>load\<close> does
  nothing.
\<close>

lemma plain_closure_runs_at_most_once:
  assumes "s = run (new_LazyServiceLoader env devMode) evs" and "closures s x = Some c"
  shows "factoryCalls c \<le> 1 \<and>
         (trigger c = OnInjection \<longrightarrow> factoryCalls c = 1) \<and>
         (registered c \<longrightarrow>
            fst (load s x) = Some (ValuePromise 0) \<and>
            (\<exists>c'. closures (snd (load s x)) x = Some c' \<and> factoryCalls c' = 1) \<and>
            (factoryCalls c = 1 \<longrightarrow> snd (load s x) = s) \<and>
            load (snd (load s x)) x = load s x \<and>
            (trigger c \<noteq> Explicit \<and> safeProperties c name = Some g \<and>
             name \<noteq> ''ngOnDestroy'' \<and> name \<noteq> ''constructor'' \<longrightarrow>
               fst (get s x name) = Some (Inr (SafeWrapper g (ValuePromise 0))) \<and>
               (\<exists>c'. closures (snd (get s x name)) x = Some c' \<and> factoryCalls c' = 1) \<and>
               (factoryCalls c = 1 \<longrightarrow> snd (get s x name) = s))) \<and>
         (\<not> registered c \<longrightarrow> load s x = (None, s))"
proof -
  note inv = reachable_closure[OF assms]
  from inv(1) have a: "factoryCalls c \<le> 1" "trigger c = OnInjection \<longrightarrow> factoryCalls c = 1"
    by (simp_all add: closure_inv_def memo_ok_def)
  have b: "fst (load s x) = Some (ValuePromise 0) \<and>
            (\<exists>c'. closures (snd (load s x)) x = Some c' \<and> factoryCalls c' = 1) \<and>
            (factoryCalls c = 1 \<longrightarrow> snd (load s x) = s) \<and>
            load (snd (load s x)) x = load s x" if r: "registered c"
  proof -
    note l = load_started[OF inv(1) r assms(2)]
    from l(2) obtain c1 where c1: "closures (snd (load s x)) x = Some c1" "factoryCalls c1 = 1"
      "registered c1"
      by blast
    have s1: "snd (load s x) = run (new_LazyServiceLoader env devMode) (evs @ [Load x])"
      using assms(1) by (simp add: run_snoc)
    note inv1 = reachable_closure(1)[OF s1 c1(1)]
    note l1 = load_started[OF inv1 c1(3) c1(1)]
    from l1(1) l1(3)[OF c1(2)] l(1) have "load (snd (load s x)) x = load s x"
      by (simp add: prod_eq_iff)
    with l show ?thesis by blast
  qed
  have d: "fst (get s x name) = Some (Inr (SafeWrapper g (ValuePromise 0))) \<and>
               (\<exists>c'. closures (snd (get s x name)) x = Some c' \<and> factoryCalls c' = 1) \<and>
               (factoryCalls c = 1 \<longrightarrow> snd (get s x name) = s)"
    if "registered c" "trigger c \<noteq> Explicit" "safeProperties c name = Some g"
      "name \<noteq> ''ngOnDestroy''" "name \<noteq> ''constructor''"
    using safe_get_started[OF inv(1) that(1) assms(2) that(2-5) inv(3)] by blast
  from a b d load_unregistered[OF assms(2)] show ?thesis by blast
qed

text \<open>Instance: a surrogate made on access whose construction closure counts its
  invocations in the environment and does not call back; after two reads of safe
  members and two loads the count is one, and a further load or read changes
  nothing.\<close>

lemma plain_closure_runs_at_most_once_instance:
  "getServiceRegistration counted_loader 0 \<noteq> None \<and>
   environment counted_loader = 1 \<and>
   map_option factoryCalls (closures counted_loader 0) = Some 1 \<and>
   load counted_loader 0 = (Some (ValuePromise 0), counted_loader) \<and>
   get counted_loader 0 ''safeVoidMethod'' =
     (Some (Inr (SafeWrapper VoidMethod (ValuePromise 0))), counted_loader)"
  using plain_closure_runs_at_most_once[of counted_loader 0 True
      "[Create OnAccess (counting demo_impl) demo_safe, Get 0 ''safePromise'', Load 0,
        Get 0 ''safeVoidMethod'', Resume 0, Load 0]" 0
      "the (closures counted_loader 0)" "''safeVoidMethod''" VoidMethod]
  by (simp add: demo_defs model_defs)

text \<open>
  C4. A surrogate is destroyed while its construction is in flight or not yet started
  (no run of \<^verbatim>\<open>create()\<close> has gone past its \<^verbatim>\<open>await\<close>). Then \<^verbatim>\<open>destroy\<close> does not
  throw and the registration is gone; whatever happens afterwards, the Deferred is
  rejected with the error "destroyed before it finished creating", so the promise a
  caller got from \<^verbatim>\<open>whenReady\<close> before the destroy rejects with it; the suspended run
  of \<^verbatim>\<open>create()\<close>, when it goes on, calls no creator and stores no construction result;
  the teardown callback is never called; and another call of \<^verbatim>\<open>destroy\<close> does nothing.
\<close>

theorem destroy_before_ready:
  assumes "s = run (new_LazyServiceLoader env devMode) evs"
    and "closures s x = Some c" and "registered c" and "completed c = []"
    and "s' = run (snd (destroy_proxy s x)) evs'"
  shows "fst (destroy_proxy s x) = None \<and>
         getServiceRegistration s' x = None \<and>
         whenReady s x = AwaitsDeferredOf x \<and>
         outcome s' (whenReady s x) = Rejected destroyedError \<and>
         (\<exists>c'. closures s' x = Some c' \<and>
            d_state (moduleAndValuePromise c') = Rejected destroyedError \<and>
            d_value (moduleAndValuePromise c') = None \<and>
            creatorCalls c' = 0 \<and> teardownCalls c' = 0) \<and>
         destroy_proxy s' x = (None, s')"
proof -
  note inv = reachable_closure(1,2)[OF assms(1,2)]
  let ?s1 = "snd (destroy_proxy s x)"
  have c1: "closures ?s1 x = Some (snd (destroy c))" by (rule destroy_same[OF assms(2)])
  have n1: "x < nextProxy ?s1"
    using inv(2) destroy_frame[of s x] by (simp add: same_frame_def)
  have "\<exists>c'. closures (run ?s1 evs') x = Some c' \<and> destroyed_early c'"
    by (rule run_keeps[where P = destroyed_early,
          OF _ c1 destroy_early(1)[OF inv(1) assms(3,4)] n1])
      (rule destroyed_early_kept)
  then obtain c' where c': "closures s' x = Some c'" "destroyed_early c'"
    using assms(5) by blast
  then have d: "destroyed c'" by (simp add: destroyed_early_def)
  have w: "whenReady s x = AwaitsDeferredOf x"
    using assms(2,3) by (simp add: whenReady_def getServiceRegistration_def)
  have o: "outcome s' (AwaitsDeferredOf x) = Rejected destroyedError"
    using c' by (simp add: outcome_def destroyed_early_def await_void_def)
  have f: "fst (destroy_proxy s x) = None"
    using destroy_early(2)[OF inv(1) assms(3,4)] assms(2)
    by (cases "destroy c") (simp add: destroy_proxy_def)
  from destroyed_ops(5,7)[OF c'(1) d] c' w o f show ?thesis
    by (auto simp: destroyed_early_def)
qed

text \<open>Instance: the surrogate made on injection is destroyed in flight; the suspended
  run of \<^verbatim>\<open>create()\<close> then goes on with a creator in hand, and \<^verbatim>\<open>destroy\<close> is
  called once more.\<close>

theorem destroy_before_ready_witness:
  "getServiceRegistration loading_loader 0 \<noteq> None \<and>
   \<not> isReady loading_loader 0 \<and>
   getServiceRegistration cancelled_loader 0 = None \<and>
   outcome cancelled_loader (whenReady loading_loader 0) =
     Rejected (Error ''The service has been destroyed before it finished creating'') \<and>
   map_option creatorCalls (closures cancelled_loader 0) = Some 0 \<and>
   map_option teardownCalls (closures cancelled_loader 0) = Some 0 \<and>
   map_option objects (closures cancelled_loader 0) = Some Map.empty"
  using destroy_before_ready[of loading_loader "()" True
      "[Create OnInjection (yields demo_impl) demo_safe]" 0
      "the (closures loading_loader 0)" cancelled_loader "[Resume 0, Destroy 0]"]
  by (simp add: demo_defs model_defs)




text \<open>
  C6. On every surrogate, whatever its readiness, each of the eight structural
  operations (own-key enumeration, reading or defining a property descriptor, deleting a
  property, reading or changing the prototype, checking or preventing extensibility)
  throws \<open>OperationNotSupportedError\<close>, and so does a \<^verbatim>\<open>set\<close> on a member declared
  safe; the loader is left as it was.
\<close>

theorem structural_operations_not_supported:
  assumes "s = run (new_LazyServiceLoader env devMode) evs"
    and "closures s x = Some c" and "registered c"
  shows "structural s x operation =
           Some (Inl (OperationNotSupportedError
             (''Operation '' @ trap_name operation @ '' is not supported on lazy services''))) \<and>
         (safeProperties c name \<noteq> None \<longrightarrow>
            (\<exists>m. set_member s x name v = (Some (Inl (OperationNotSupportedError m)), s)))"
proof -
  note inv = reachable_closure(1)[OF assms(1,2)]
  note nr = registered_facts(1)[OF inv assms(3)]
  have a: "structural s x operation =
           Some (Inl (OperationNotSupportedError
             (''Operation '' @ trap_name operation @ '' is not supported on lazy services'')))"
    using assms(2) nr by (simp add: structural_def proxy_structural_def notSupported_def)
  have b: "\<exists>m. set_member s x name v = (Some (Inl (OperationNotSupportedError m)), s)"
    if "safeProperties c name \<noteq> None"
    using that assms(2) nr put_same[OF assms(2)]
    by (auto simp: set_member_def proxy_set_def)
  from a b show ?thesis by blast
qed

text \<open>Instances: structural operations on a ready and on an idle surrogate, and a
  \<^verbatim>\<open>set\<close> of a safe property.\<close>

theorem structural_operations_not_supported_witness:
  "getServiceRegistration ready_loader 0 \<noteq> None \<and>
   structural ready_loader 0 OwnKeys =
     Some (Inl (OperationNotSupportedError ''Operation ownKeys is not supported on lazy services'')) \<and>
   structural explicit_loader 0 GetPrototypeOf =
     Some (Inl (OperationNotSupportedError
       ''Operation getPrototypeOf is not supported on lazy services'')) \<and>
   set_member ready_loader 0 ''safePromise'' (JNum 1) =
     (Some (Inl (OperationNotSupportedError
        ''Properties marked as safe properties cannot be edited'')), ready_loader)"
  using structural_operations_not_supported[of ready_loader "()" True
      "[Create OnAccess (yields demo_impl) demo_safe, Get 0 ''safePromise'', Resume 0]" 0
      "the (closures ready_loader 0)" OwnKeys "''safePromise''" "JNum 1"]
    structural_operations_not_supported[of explicit_loader "()" True
      "[Create Explicit (yields demo_impl) demo_safe]" 0
      "the (closures explicit_loader 0)" GetPrototypeOf "''safePromise''" "JNum 1"]
  by (simp add: demo_defs model_defs)

text \<open>
  C7. A surrogate is made with the \<open>Explicit\<close> trigger. Along every run in which
  \<^verbatim>\<open>load\<close> is not called on it, the construction closure is never invoked; and as
  long as it is a surrogate (it has not been destroyed) \<^verbatim>\<open>isReady\<close> is false, the
  Deferred is pending, no \<^verbatim>\<open>get\<close> changes anything, and a \<^verbatim>\<open>get\<close> of a member
  declared safe (other than the intercepted names) returns the safe getter's wrapper
  around \<^verbatim>\<open>moduleAndValuePromise.then(v => v.service)\<close>.
\<close>

theorem explicit_trigger_waits_for_load:
  assumes "create Explicit f sp s0 = (x, s1)" and "s = run s1 evs" and "Load x \<notin> set evs"
  shows "\<exists>c. closures s x = Some c \<and> factoryCalls c = 0 \<and>
           (registered c \<longrightarrow>
              \<not> isReady s x \<and>
              d_state (moduleAndValuePromise c) = Pending \<and>
              (\<forall>name. snd (get s x name) = s) \<and>
              (\<forall>name g. sp name = Some g \<and> name \<noteq> ''ngOnDestroy'' \<and> name \<noteq> ''constructor'' \<longrightarrow>
                 fst (get s x name) = Some (Inr (SafeWrapper g DeferredThen))))"
proof -
  from assms(1) have "fst (create Explicit f sp s0) = x" and s1: "s1 = snd (create Explicit f sp s0)"
    by simp_all
  then have x: "x = nextProxy s0" by (simp add: create_frame)
  have c1: "closures s1 x = Some (fst (create_closure Explicit f sp (environment s0)))"
    using x s1 by (simp add: create_frame)
  have n1: "x < nextProxy s1" using x s1 by (simp add: create_frame)
  have "\<exists>c'. closures (run s1 evs) x = Some c' \<and> explicit_idle sp c'"
    by (rule run_keeps_unloaded[where P = "explicit_idle sp", OF _ c1 explicit_idle_new n1 assms(3)])
      (rule explicit_idle_kept)
  then obtain c where c: "closures s x = Some c" "explicit_idle sp c"
    using assms(2) by blast
  have g: "snd (get s x name) = s" for name
    using c explicit_idle_get[OF c(2), of "isDevMode s" name "environment s"]
      put_same[OF c(1)]
    by (cases "proxy_get (isDevMode s) name (c, environment s)") (simp add: get_def)
  have w: "fst (get s x name) = Some (Inr (SafeWrapper g DeferredThen))"
    if "registered c" "sp name = Some g" "name \<noteq> ''ngOnDestroy''" "name \<noteq> ''constructor''"
    for name g
    using c that
    by (simp add: get_def proxy_get_unfold explicit_idle_def call_async_def call_async_with_def
        split: prod.splits)
  have r: "\<not> isReady s x" if "registered c"
    using c that by (simp add: isReady_def getServiceRegistration_def explicit_idle_def)
  from c g w r show ?thesis by (auto simp: explicit_idle_def)
qed

text \<open>Instance: reads of a safe and of an unsafe member, a write and a stray resumption,
  with no \<^verbatim>\<open>load\<close>.\<close>

theorem explicit_trigger_waits_for_load_witness:
  "create Explicit (plain (yields demo_impl)) demo_safe (new_LazyServiceLoader () True) =
     (0, explicit_loader) \<and>
   Load 0 \<notin> set [Get 0 ''safePromise'', Resume 0, Get 0 ''unsafeProperty'',
                   Set 0 ''unsafeProperty'' (JNum 1) :: unit event] \<and>
   map_option factoryCalls (closures unloaded_loader 0) = Some 0 \<and>
   \<not> isReady unloaded_loader 0 \<and>
   get unloaded_loader 0 ''safePromise'' =
     (Some (Inr (SafeWrapper PromiseProperty DeferredThen)), unloaded_loader) \<and>
   get unloaded_loader 0 ''safeVoidMethod'' =
     (Some (Inr (SafeWrapper VoidMethod DeferredThen)), unloaded_loader)"
  using explicit_trigger_waits_for_load[of "plain (yields demo_impl)" demo_safe
      "new_LazyServiceLoader () True" 0 explicit_loader unloaded_loader
      "[Get 0 ''safePromise'', Resume 0, Get 0 ''unsafeProperty'',
        Set 0 ''unsafeProperty'' (JNum 1)]"]
  by (simp add: demo_defs model_defs)

text \<open>
  C8. A surrogate is made by a differential factory, loaded, and its construction
  resumed, with \<^verbatim>\<open>determine()\<close> returning the determinant \<open>d\<close>. The construction closure
  runs \<^verbatim>\<open>determine\<close> and then the closure registered for \<open>d\<close>; if there is none, the
  fallback; if there is no fallback either, construction fails: the Deferred is
  rejected with, and unsafe members rethrow, an \<open>UnexpectedDeterminantError\<close> whose
  message quotes \<^verbatim>\<open>String(d)\<close>. In each case the environment is the one \<^verbatim>\<open>determine\<close>
  left, passed through the selected closure. One run of the construction closure calls
  \<^verbatim>\<open>determine\<close> exactly once: with its calls counted, the count goes up by one.
\<close>

theorem differential_factory_selects_by_determinant:
  assumes "determine df (environment s0) = (Inr d, env1)"
    and "x = nextProxy s0"
    and "s3 = resume (snd (load (snd (invoke_differential String df s0)) x)) x"
  shows "(case serviceFactories df d of
            Some fn \<Rightarrow>
              environment s3 = snd (fn env1) \<and>
              (\<exists>c. closures s3 x = Some c \<and> factoryCalls c = 1 \<and> completed c = [fst (fn env1)])
          | None \<Rightarrow>
              (case fallbackServiceFactory df of
                 Some fallback \<Rightarrow>
                   environment s3 = snd (fallback env1) \<and>
                   (\<exists>c. closures s3 x = Some c \<and> factoryCalls c = 1 \<and>
                      completed c = [fst (fallback env1)])
               | None \<Rightarrow>
                   environment s3 = env1 \<and>
                   (\<exists>c. closures s3 x = Some c \<and> factoryCalls c = 1 \<and>
                      d_state (moduleAndValuePromise c) =
                        Rejected (UnexpectedDeterminantError
                          (''Got determinant '' @ [CHR 0x22] @ String d @ [CHR 0x22] @
                           '' which has not been registered'')) \<and>
                      getValue c =
                        RethrowFn (UnexpectedDeterminantError
                          (''Got determinant '' @ [CHR 0x22] @ String d @ [CHR 0x22] @
                           '' which has not been registered''))))) \<and>
         fst (snd (differential_serviceFactory String
            \<lparr>determine = counted det, fallbackServiceFactory = map_option uncounted fb,
             serviceFactories = map_option uncounted \<circ> sf,
             df_trigger = t, df_safeProperties = sp\<rparr> (n, env))) = Suc n"
proof -
  obtain r env2 where f: "differential_serviceFactory String df (environment s0) = (r, env2)"
    by (cases "differential_serviceFactory String df (environment s0)")
  from create_load_resume[where f = "differential_serviceFactory String df" and s' = s3
      and t = "df_trigger df" and sp = "df_safeProperties df", OF f assms(2)] assms(3)
  obtain c where c: "environment s3 = env2" "closures s3 x = Some c" "factoryCalls c = 1"
    "completed c = [r]" "d_state (moduleAndValuePromise c) = settles_to (isDevMode s0) r"
    "getValue c =
              (case settles_to (isDevMode s0) r of
                 Pending \<Rightarrow> NotReadyFn
               | Rejected e \<Rightarrow> RethrowFn e
               | Fulfilled v \<Rightarrow> ServiceFn (service v))"
    by (auto simp: invoke_differential_def)
  show ?thesis
  proof (cases "serviceFactories df d")
    case (Some fn)
    with f assms(1) have "r = fst (fn env1)" "env2 = snd (fn env1)"
      by (simp_all add: differential_serviceFactory_def)
    with c Some counted_once show ?thesis by simp
  next
    case None
    show ?thesis
    proof (cases "fallbackServiceFactory df")
      case (Some fallback)
      with f assms(1) None have "r = fst (fallback env1)" "env2 = snd (fallback env1)"
        by (simp_all add: differential_serviceFactory_def)
      with c None Some counted_once show ?thesis by simp
    next
      case n: None
      with f assms(1) None have "r = FactoryFails (unexpectedDeterminant String d)" "env2 = env1"
        by (simp_all add: differential_serviceFactory_def)
      with c None n counted_once show ?thesis by (simp add: unexpectedDeterminant_def)
    qed
  qed
qed

text \<open>Instance: closures are registered for \<open>A\<close> and \<open>B\<close>, there is no fallback, and
  \<^verbatim>\<open>determine\<close>, which counts its calls in the environment, returns \<open>C\<close>.\<close>

theorem differential_factory_selects_by_determinant_witness:
  "determine demo_differential (environment (new_LazyServiceLoader (0::nat) True)) =
     (Inr ''C'', 1) \<and>
   serviceFactories demo_differential ''C'' = None \<and>
   fallbackServiceFactory demo_differential = None \<and>
   map_option (\<lambda>c. d_state (moduleAndValuePromise c)) (closures differential_loader 0) =
     Some (Rejected (UnexpectedDeterminantError
       (''Got determinant '' @ [CHR 0x22] @ ''C'' @ [CHR 0x22] @
        '' which has not been registered''))) \<and>
   environment differential_loader = 1"
  using differential_factory_selects_by_determinant[of demo_differential
      "new_LazyServiceLoader (0::nat) True" "''C''" 1 0 differential_loader "\<lambda>d. d"]
  by (simp add: demo_defs model_defs invoke_differential_def differential_serviceFactory_def
      setImplementation_def differentialLazyFactory_def unexpectedDeterminant_def)

text \<open>
  C9. The first \<^verbatim>\<open>destroy\<close> of a surrogate revokes its proxy. From then on, whatever
  else happens to the loader, every operation on the proxy (a \<^verbatim>\<open>get\<close> of any member,
  a safe one and \<^verbatim>\<open>ngOnDestroy\<close> included, a \<^verbatim>\<open>set\<close>, a \<^verbatim>\<open>has\<close>, a structural
  operation) throws the \<open>TypeError\<close> of a revoked proxy and changes nothing, while
  calling the \<^verbatim>\<open>destroy\<close> function again, and \<^verbatim>\<open>load\<close> of the loader, do nothing.
\<close>

theorem destroyed_proxy_throws_TypeError:
  assumes "s = run (new_LazyServiceLoader env devMode) evs"
    and "closures s x = Some c" and "registered c"
    and "s' = run (snd (destroy_proxy s x)) evs'"
  shows "(\<exists>c'. closures s' x = Some c' \<and> revoked c' \<and> \<not> registered c') \<and>
         get s' x name = (Some (Inl (TypeError ''get'')), s') \<and>
         set_member s' x name v = (Some (Inl (TypeError ''set'')), s') \<and>
         has s' x name = Some (Inl (TypeError ''has'')) \<and>
         structural s' x operation = Some (Inl (TypeError (trap_name operation))) \<and>
         destroy_proxy s' x = (None, s') \<and>
         load s' x = (None, s')"
proof -
  note inv = reachable_closure(1,2)[OF assms(1,2)]
  let ?s1 = "snd (destroy_proxy s x)"
  have c1: "closures ?s1 x = Some (snd (destroy c))" by (rule destroy_same[OF assms(2)])
  have n1: "x < nextProxy ?s1"
    using inv(2) destroy_frame[of s x] by (simp add: same_frame_def)
  have "\<exists>c'. closures (run ?s1 evs') x = Some c' \<and> destroyed c'"
    by (rule run_keeps[where P = destroyed, OF _ c1 destroy_registered[OF inv(1) assms(3)] n1])
      (rule destroyed_kept)
  then obtain c' where c': "closures s' x = Some c'" "destroyed c'"
    using assms(4) by blast
  from destroyed_ops[OF c'] c' show ?thesis by (simp add: destroyed_def)
qed

text \<open>Instance: the ready surrogate is destroyed; after a \<^verbatim>\<open>load\<close> and a stray
  resumption, reading a safe property or \<^verbatim>\<open>ngOnDestroy\<close> throws.\<close>

theorem destroyed_proxy_throws_TypeError_witness:
  "getServiceRegistration ready_loader 0 \<noteq> None \<and>
   get destroyed_loader 0 ''safePromise'' = (Some (Inl (TypeError ''get'')), destroyed_loader) \<and>
   get destroyed_loader 0 ''ngOnDestroy'' = (Some (Inl (TypeError ''get'')), destroyed_loader) \<and>
   has destroyed_loader 0 ''unsafeProperty'' = Some (Inl (TypeError ''has'')) \<and>
   destroy_proxy destroyed_loader 0 = (None, destroyed_loader)"
  using destroyed_proxy_throws_TypeError[of ready_loader "()" True
      "[Create OnAccess (yields demo_impl) demo_safe, Get 0 ''safePromise'', Resume 0]" 0
      "the (closures ready_loader 0)" destroyed_loader "[Load 0, Resume 0]" "''safePromise''"]
    destroyed_proxy_throws_TypeError[of ready_loader "()" True
      "[Create OnAccess (yields demo_impl) demo_safe, Get 0 ''safePromise'', Resume 0]" 0
      "the (closures ready_loader 0)" destroyed_loader "[Load 0, Resume 0]" "''ngOnDestroy''"
      "JNum 1" OwnKeys]
  by (simp add: demo_defs model_defs)

text \<open>
  C10. A surrogate whose Deferred is rejected (construction failed) is destroyed: the
  Deferred is flagged resolved and stores no value, so \<^verbatim>\<open>destroy\<close> calls no teardown
  callback and does not throw; it unregisters the proxy and revokes it. A Deferred
  stores the value of a \<^verbatim>\<open>resolve\<close> only when nothing settled it before.
\<close>

theorem destroy_after_failed_construction:
  assumes "s = run (new_LazyServiceLoader env devMode) evs"
    and "closures s x = Some c" and "registered c"
    and "d_state (moduleAndValuePromise c) = Rejected e"
  shows "isResolved (moduleAndValuePromise c) \<and>
         d_value (moduleAndValuePromise c) = None \<and>
         teardownCalls c = 0 \<and>
         destroy c = (None, c\<lparr>registered := False, revoked := True\<rparr>) \<and>
         destroy_proxy s x =
           (None, put x (c\<lparr>registered := False, revoked := True\<rparr>, environment s) s) \<and>
         d_value (resolve v (reject e' new_Deferred)) = None \<and>
         d_value (resolve v new_Deferred) = Some v"
proof -
  note inv = reachable_closure(1)[OF assms(1,2)]
  from inv assms(4) have d: "isResolved (moduleAndValuePromise c)"
    "d_value (moduleAndValuePromise c) = None"
    by (simp_all add: closure_inv_def deferred_ok_def)
  note t = registered_facts(6)[OF inv assms(3)]
  have k: "destroy c = (None, c\<lparr>registered := False, revoked := True\<rparr>)"
    using d assms(3) by (simp add: destroy_def)
  have "d_value (resolve v (reject e' new_Deferred)) = None"
    "d_value (resolve v new_Deferred) = Some v"
    by (simp_all add: resolve_def reject_def new_Deferred_def)
  with d t k assms(2) show ?thesis by (simp add: destroy_proxy_def)
qed

text \<open>Instance: the surrogate whose construction closure failed is destroyed.\<close>

theorem destroy_after_failed_construction_witness:
  "getServiceRegistration failed_loader 0 \<noteq> None \<and>
   map_option (\<lambda>c. d_state (moduleAndValuePromise c)) (closures failed_loader 0) =
     Some (Rejected (Error ''boom'')) \<and>
   fst (destroy_proxy failed_loader 0) = None \<and>
   map_option teardownCalls (closures (snd (destroy_proxy failed_loader 0)) 0) = Some 0"
  using destroy_after_failed_construction[of failed_loader "()" True
      "[Create Explicit (yields (FactoryFails (Error ''boom''))) demo_safe, Load 0, Resume 0]" 0
      "the (closures failed_loader 0)" "Error ''boom''"]
  by (simp add: demo_defs model_defs)

end
